theory Spec2Isabelle
  imports Complex_Main "HOL-Library.Sublist"
begin

section \<open>Latent-variable grid CRFs of pystruct (problems/latent\_crf.py)\<close>

text \<open>
  The module is Python 2 code (it has no \<^verbatim>\<open>from __future__ import division\<close>), so
  \<^verbatim>\<open>/\<close> between integer arrays and integers is floor division, the spec's \<^verbatim>\<open>//\<close>.
  numpy's integer floor division by zero yields 0 (with a warning), which is also what
  \<open>div\<close> on \<^typ>\<open>int\<close> yields.

  A label map \<^verbatim>\<open>y\<close> and a hidden map \<^verbatim>\<open>h\<close> are integer arrays of shape
  \<^verbatim>\<open>[height, width]\<close>: lists of rows. The unaries \<^verbatim>\<open>x\<close> are a real array of shape
  \<^verbatim>\<open>[height, width, n_features]\<close>: rows of cells, each cell the scores of one node.
  The weight vector \<^verbatim>\<open>w\<close> is a real vector. Floating-point numbers are modelled by
  exact reals. The integer arrays hold 64-bit signed integers (\<^verbatim>\<open>np.int\<close>, numpy's default
  integer type where the code runs); their entries are written as integers, and a product
  that leaves the 64-bit range wraps around.
\<close>

type_synonym label_map = "int list list"
type_synonym unaries = "real list list list"
type_synonym weights = "real list"

subsection \<open>The model object\<close>

text \<open>
  \<^verbatim>\<open>self\<close> of \<^verbatim>\<open>LatentGridCRF\<close> and \<^verbatim>\<open>LatentDirectionalGridCRF\<close>, with the
  integer form of \<^verbatim>\<open>n_states_per_label\<close>. The two constructors have the same body:
  they store the two arguments and hand \<^verbatim>\<open>n_labels * n_states_per_label\<close> to the base
  class, which keeps it as \<^verbatim>\<open>self.n_states\<close>.
\<close>

record latent_crf =
  n_labels :: nat
  n_states_per_label :: nat
  n_states :: nat

definition LatentGridCRF_init :: "nat \<Rightarrow> nat \<Rightarrow> latent_crf" where
  "LatentGridCRF_init nl spl =
     \<lparr>n_labels = nl, n_states_per_label = spl, n_states = nl * spl\<rparr>"

subsection \<open>numpy on label maps\<close>

text \<open>\<^verbatim>\<open>h / k\<close> for an integer array \<^verbatim>\<open>h\<close> and an integer \<^verbatim>\<open>k\<close>.\<close>

definition np_floordiv :: "label_map \<Rightarrow> nat \<Rightarrow> label_map" where
  "np_floordiv h k = map (map (\<lambda>v. v div int k)) h"

text \<open>The 64-bit signed integers, and the value a result takes in that type.\<close>

definition is_int64 :: "int \<Rightarrow> bool" where
  "is_int64 v = (- (2 ^ 63) \<le> v \<and> v < 2 ^ 63)"

definition wrap_int64 :: "int \<Rightarrow> int" where
  "wrap_int64 v = (v + 2 ^ 63) mod 2 ^ 64 - 2 ^ 63"

text \<open>
  \<^verbatim>\<open>y * k\<close> for an integer array \<^verbatim>\<open>y\<close> and an integer \<^verbatim>\<open>k\<close>: the products of the
  entries, wrapped into the 64-bit range as numpy does without a warning.
\<close>

definition np_times :: "label_map \<Rightarrow> nat \<Rightarrow> label_map" where
  "np_times y k = map (map (\<lambda>v. wrap_int64 (v * int k))) y"

text \<open>
  \<^verbatim>\<open>a != b\<close> for two arrays of the same shape: the boolean array of the elementwise
  comparisons. The theorems below state the equality of the shapes where they need it.
\<close>

definition np_not_equal :: "label_map \<Rightarrow> label_map \<Rightarrow> bool list list" where
  "np_not_equal a b = map2 (map2 (\<lambda>u v. u \<noteq> v)) a b"

text \<open>\<^verbatim>\<open>np.sum\<close> of a boolean array: the number of its true entries.\<close>

definition np_sum :: "bool list list \<Rightarrow> nat" where
  "np_sum m = sum_list (map (\<lambda>r. length (filter (\<lambda>b. b) r)) m)"

text \<open>\<^verbatim>\<open>m.any()\<close> of a boolean array.\<close>

definition np_any_mask :: "bool list list \<Rightarrow> bool" where
  "np_any_mask m = list_ex (list_ex (\<lambda>b. b)) m"

text \<open>The shape of a two-dimensional array, row by row.\<close>

definition shape2 :: "'a list list \<Rightarrow> nat list" where
  "shape2 a = map length a"

subsection \<open>loss\<close>

text \<open>
  \<^verbatim>\<open>LatentGridCRF.loss\<close> and \<^verbatim>\<open>LatentDirectionalGridCRF.loss\<close> (the same body):
  \<^verbatim>\<open>np.sum(h / self.n_states_per_label != h_hat / self.n_states_per_label)\<close>.
\<close>

definition loss :: "latent_crf \<Rightarrow> label_map \<Rightarrow> label_map \<Rightarrow> nat" where
  "loss self h h_hat =
     np_sum (np_not_equal (np_floordiv h (n_states_per_label self))
                          (np_floordiv h_hat (n_states_per_label self)))"

text \<open>
  The spec's words for the loss: the Hamming distance of two label maps is the number of
  nodes at which they disagree, and the latent loss is that distance after collapsing each
  hidden state to its owning visible label.
\<close>

definition hamming_distance :: "label_map \<Rightarrow> label_map \<Rightarrow> nat" where
  "hamming_distance a b =
     card {(i, j). i < length a \<and> j < length (a ! i) \<and> a ! i ! j \<noteq> b ! i ! j}"

definition visible_labels :: "latent_crf \<Rightarrow> label_map \<Rightarrow> label_map" where
  "visible_labels self h = map (map (\<lambda>s. s div int (n_states_per_label self))) h"


subsection \<open>Errors\<close>

text \<open>
  The exceptions the modelled code can raise. numpy reports a floating-point division by
  zero as a warning and yields \<^verbatim>\<open>inf\<close>; the model makes it an error, so that its absence
  is a statement about the code.
\<close>

datatype error = IndexError | ValueError | ZeroDivisionError

subsection \<open>numpy on unaries and weights\<close>

text \<open>
  \<^verbatim>\<open>np.repeat(x, k, axis=-1)\<close>: every entry of the last axis is repeated \<^verbatim>\<open>k\<close> times
  in place, so \<^verbatim>\<open>[a, b]\<close> becomes \<^verbatim>\<open>[a, a, b, b]\<close> for \<^verbatim>\<open>k = 2\<close>.
\<close>

definition np_repeat :: "unaries \<Rightarrow> nat \<Rightarrow> unaries" where
  "np_repeat x k = map (map (\<lambda>cell. concat (map (replicate k) cell))) x"

text \<open>\<^verbatim>\<open>np.any(w)\<close>: some entry of \<^verbatim>\<open>w\<close> is not zero.\<close>

definition np_any :: "weights \<Rightarrow> bool" where
  "np_any w = list_ex (\<lambda>v. v \<noteq> 0) w"

text \<open>\<^verbatim>\<open>a != c\<close> for an integer array \<^verbatim>\<open>a\<close> and an integer \<^verbatim>\<open>c\<close>.\<close>

definition np_not_equal_scalar :: "label_map \<Rightarrow> int \<Rightarrow> bool list list" where
  "np_not_equal_scalar a c = map (map (\<lambda>v. v \<noteq> c)) a"

text \<open>A property of every cell of a three-dimensional array.\<close>

definition all_cells :: "(real list \<Rightarrow> bool) \<Rightarrow> unaries \<Rightarrow> bool" where
  "all_cells P x = list_all (list_all P) x"

subsection \<open>loss\_augment\<close>

text \<open>
  \<^verbatim>\<open>unary_params = w[:self.n_states].copy()\<close> followed by
  \<^verbatim>\<open>unary_params[unary_params == 0] = 1e-10\<close>.
\<close>

definition replace_zeros :: "weights \<Rightarrow> weights" where
  "replace_zeros u = map (\<lambda>v. if v = 0 then 1 / 10 ^ 10 else v) u"

definition loss_augment_unary_params :: "latent_crf \<Rightarrow> weights \<Rightarrow> weights" where
  "loss_augment_unary_params self w = replace_zeros (take (n_states self) w)"

text \<open>
  \<^verbatim>\<open>x_wide[mask, s]\<close> for a boolean mask over the nodes can be read and written when
  the mask has the shape of the grid and \<^verbatim>\<open>s\<close> lies within the last axis; otherwise the
  indexing raises.
\<close>

definition masked_index_ok :: "bool list list \<Rightarrow> nat \<Rightarrow> unaries \<Rightarrow> bool" where
  "masked_index_ok selected s x_wide =
     (shape2 selected = shape2 x_wide \<and> all_cells (\<lambda>cell. s < length cell) x_wide)"

text \<open>
  \<^verbatim>\<open>x_wide[mask, s] += v\<close>: entry \<^verbatim>\<open>s\<close> of every cell whose node is selected grows
  by \<^verbatim>\<open>v\<close>.
\<close>

definition add_at_masked :: "bool list list \<Rightarrow> nat \<Rightarrow> real \<Rightarrow> unaries \<Rightarrow> unaries" where
  "add_at_masked selected s v x_wide =
     map2 (map2 (\<lambda>b cell. if b then cell[s := cell ! s + v] else cell)) selected x_wide"

text \<open>
  One round of the loop of \<^verbatim>\<open>loss_augment\<close>, for the state \<^verbatim>\<open>s\<close>:
  \<^verbatim>\<open>x_wide[h / self.n_states_per_label != s / self.n_states_per_label, s] += 1. / unary_params[s]\<close>.
  Python reads \<^verbatim>\<open>x_wide[mask, s]\<close> first, then evaluates the right-hand side, then adds
  and writes back.
\<close>

definition loss_augment_step ::
  "latent_crf \<Rightarrow> label_map \<Rightarrow> weights \<Rightarrow> nat \<Rightarrow> unaries \<Rightarrow> error + unaries" where
  "loss_augment_step self h unary_params s x_wide =
     (let selected = np_not_equal_scalar (np_floordiv h (n_states_per_label self))
                       (int s div int (n_states_per_label self))
      in if \<not> masked_index_ok selected s x_wide then Inl IndexError
         else if length unary_params \<le> s then Inl IndexError
         else if unary_params ! s = 0 then Inl ZeroDivisionError
         else Inr (add_at_masked selected s (1 / unary_params ! s) x_wide))"

text \<open>\<^verbatim>\<open>for s in np.arange(self.n_states): ...\<close>, over the states still to visit.\<close>

fun loss_augment_loop ::
  "latent_crf \<Rightarrow> label_map \<Rightarrow> weights \<Rightarrow> nat list \<Rightarrow> unaries \<Rightarrow> error + unaries" where
  "loss_augment_loop self h unary_params [] x_wide = Inr x_wide"
| "loss_augment_loop self h unary_params (s # rest) x_wide =
     (case loss_augment_step self h unary_params s x_wide of
        Inl e \<Rightarrow> Inl e
      | Inr x_wide' \<Rightarrow> loss_augment_loop self h unary_params rest x_wide')"

text \<open>\<^verbatim>\<open>LatentCRF.loss_augment(self, x, h, w)\<close>, as a function of the values.\<close>

definition loss_augment :: "latent_crf \<Rightarrow> unaries \<Rightarrow> label_map \<Rightarrow> weights \<Rightarrow> error + unaries" where
  "loss_augment self x h w =
     (let x_wide = np_repeat x (n_states_per_label self);
          unary_params = loss_augment_unary_params self w
      in loss_augment_loop self h unary_params [0..<n_states self] x_wide)"

subsection \<open>latent\<close>

text \<open>
  Modelled from the spec: \<^verbatim>\<open>CRF.get_unary_weights\<close> belongs to the base classes, which
  are not among the sources. The spec's data model partitions \<^verbatim>\<open>w\<close> into a unary block
  of \<^verbatim>\<open>n_states\<close> entries, one scalar per state for the grid CRFs, followed by the
  pairwise block; \<^verbatim>\<open>loss_augment\<close> reads the same block as \<^verbatim>\<open>w[:self.n_states]\<close>.
\<close>

definition get_unary_weights :: "latent_crf \<Rightarrow> weights \<Rightarrow> weights" where
  "get_unary_weights self w = take (n_states self) w"

text \<open>
  \<^verbatim>\<open>other_states = (np.arange(self.n_states) / self.n_states_per_label != y[:, :, np.newaxis])\<close>:
  for every node, the states whose label is not the node's label.
\<close>

definition other_states :: "latent_crf \<Rightarrow> label_map \<Rightarrow> bool list list list" where
  "other_states self y =
     map (map (\<lambda>yv. map (\<lambda>s. int s div int (n_states_per_label self) \<noteq> yv)
                       [0..<n_states self])) y"

text \<open>\<^verbatim>\<open>-1000 * np.sign(unary_params)\<close>.\<close>

definition forbidding_values :: "weights \<Rightarrow> weights" where
  "forbidding_values unary_params = map (\<lambda>u. - 1000 * sgn u) unary_params"

text \<open>
  The unaries that \<^verbatim>\<open>latent\<close> hands to the inference of the base class:
  \<^verbatim>\<open>x_wide[other_states] = (-1000 * np.sign(unary_params) * np.ones(x_wide.shape))[other_states]\<close>.
  The product with \<^verbatim>\<open>np.ones(x_wide.shape)\<close> broadcasts the vector along the last axis,
  which raises unless the lengths agree or one of them is 1 (the other is then the width of
  the product); the boolean mask must have the shape of the arrays it indexes, the product
  and \<^verbatim>\<open>x_wide\<close>. (A list of no rows has no cell whose width could be
  wrong.)
\<close>

definition latent_unaries :: "latent_crf \<Rightarrow> unaries \<Rightarrow> label_map \<Rightarrow> weights \<Rightarrow> error + unaries" where
  "latent_unaries self x y w =
     (let x_wide = np_repeat x (n_states_per_label self);
          unary_params = get_unary_weights self w;
          other = other_states self y;
          x_wide = np_repeat x (n_states_per_label self);
          k = length unary_params;
          vals = forbidding_values unary_params
      in if \<not> all_cells (\<lambda>cell. k = length cell \<or> k = 1 \<or> length cell = 1) x_wide
         then Inl ValueError
         else if shape2 y \<noteq> shape2 x_wide \<or>
                 \<not> all_cells (\<lambda>cell. length cell = n_states self \<and>
                                       (if length cell = 1 then k else length cell) =
                                         n_states self) x_wide
         then Inl IndexError
         else Inr (map2 (map2 (\<lambda>forbidden cell.
                     map (\<lambda>s. if forbidden ! s then (if k = 1 then vals ! 0 else vals ! s)
                               else cell ! s) [0..<length cell])) other x_wide))"

text \<open>What \<^verbatim>\<open>latent\<close> does besides returning: the line it prints and the debugger it enters.\<close>

datatype event = Print string | Tracer

text \<open>
  \<^verbatim>\<open>LatentGridCRF.latent\<close> and \<^verbatim>\<open>LatentDirectionalGridCRF.latent\<close>. The two bodies
  differ only in the base class whose \<^verbatim>\<open>inference\<close> they call with \<^verbatim>\<open>relaxed=False\<close>
  (\<^verbatim>\<open>GridCRF\<close>, \<^verbatim>\<open>DirectionalGridCRF\<close>); the base classes are not among the sources, and
  their inference is the parameter \<open>inference\<close>. \<^verbatim>\<open>latent\<close> does not check the shape of
  the map the inference returns; the comparison \<^verbatim>\<open>h / n != y\<close> is that of two arrays of
  the same shape, and the theorems below state that the inference labels every node where
  they need it.
\<close>

definition latent ::
  "(unaries \<Rightarrow> weights \<Rightarrow> label_map) \<Rightarrow> latent_crf \<Rightarrow> unaries \<Rightarrow> label_map \<Rightarrow> weights
     \<Rightarrow> error + (event list \<times> label_map)" where
  "latent inference self x y w =
     (case latent_unaries self x y w of
        Inl e \<Rightarrow> Inl e
      | Inr x_wide \<Rightarrow>
          (let h = inference x_wide w in
           if np_any_mask (np_not_equal (np_floordiv h (n_states_per_label self)) y)
           then (if np_any w
                 then Inr ([Print ''inconsistent h and y'', Tracer],
                           np_times y (n_states_per_label self))
                 else Inr ([], np_times y (n_states_per_label self)))
           else Inr ([], h)))"

text \<open>
  The inputs the grid models are made for: \<^verbatim>\<open>self\<close> built by the constructor, a label
  map with one label per node of \<^verbatim>\<open>x\<close>, one unary score per visible label at every node,
  and a weight vector that holds the unary block.
\<close>

definition well_shaped :: "latent_crf \<Rightarrow> unaries \<Rightarrow> label_map \<Rightarrow> weights \<Rightarrow> bool" where
  "well_shaped self x y w =
     (n_states self = n_labels self * n_states_per_label self \<and>
      shape2 y = shape2 x \<and>
      all_cells (\<lambda>cell. length cell = n_labels self) x \<and>
      n_states self \<le> length w)"


text \<open>
  The label maps whose fallback \<^verbatim>\<open>y * self.n_states_per_label\<close> does not wrap: every
  product is a 64-bit integer. The label maps of the spec's data model, with labels in
  \<open>[0, n_labels)\<close>, are such maps whenever \<open>n_labels * n_states_per_label\<close> is at most
  \<open>2 ^ 63\<close>.
\<close>

definition labels_fit_int64 :: "latent_crf \<Rightarrow> label_map \<Rightarrow> bool" where
  "labels_fit_int64 self y =
     list_all (list_all (\<lambda>v. is_int64 (v * int (n_states_per_label self)))) y"

definition labels_in_range :: "latent_crf \<Rightarrow> label_map \<Rightarrow> bool" where
  "labels_in_range self y = list_all (list_all (\<lambda>v. 0 \<le> v \<and> v < int (n_labels self))) y"

subsection \<open>The inference of the base class\<close>

text \<open>
  Modelled from the spec: the inference of the base classes is not among the sources. The
  contract of the inference oracle in the spec is that it returns one integer label per
  node of the unaries it is given.
\<close>

definition labels_every_node :: "(unaries \<Rightarrow> weights \<Rightarrow> label_map) \<Rightarrow> bool" where
  "labels_every_node inference = (\<forall>x_wide w. shape2 (inference x_wide w) = shape2 x_wide)"

text \<open>
  An inference to run the model on: the exact maximiser for a grid CRF whose pairwise
  weights are zero. The unary potential of state \<open>s\<close> at a node is the node's score for
  \<open>s\<close> times the unary weight of \<open>s\<close>, and every node takes the first state of greatest
  potential, as \<^verbatim>\<open>np.argmax\<close> does.
\<close>

fun argmax :: "real list \<Rightarrow> nat" where
  "argmax [] = 0"
| "argmax [v] = 0"
| "argmax (v # u # rest) =
     (let i = argmax (u # rest) in if (u # rest) ! i \<le> v then 0 else Suc i)"

definition nodewise_argmax :: "unaries \<Rightarrow> weights \<Rightarrow> label_map" where
  "nodewise_argmax x_wide w =
     map (map (\<lambda>cell. int (argmax (map2 (\<lambda>a b. a * b) cell w)))) x_wide"


subsection \<open>The constructor on both forms of n\_states\_per\_label\<close>

text \<open>
  The tests build the models with \<^verbatim>\<open>n_states_per_label\<close> an integer (\<^verbatim>\<open>2\<close>) or a Python
  list (\<^verbatim>\<open>[1, 2]\<close>, \<^verbatim>\<open>[1, 4]\<close>). Both constructors compute
  \<^verbatim>\<open>n_states = n_labels * n_states_per_label\<close> with \<^verbatim>\<open>n_labels\<close> an integer: Python's
  product of two integers, or the repetition of a list.
\<close>

datatype py_value = PyInt int | PyList "int list"

fun py_mul :: "int \<Rightarrow> py_value \<Rightarrow> py_value" where
  "py_mul k (PyInt n) = PyInt (k * n)"
| "py_mul k (PyList l) = PyList (concat (replicate (nat k) l))"

definition init_n_states :: "int \<Rightarrow> py_value \<Rightarrow> py_value" where
  "init_n_states nl spl = py_mul nl spl"

text \<open>
  \<^verbatim>\<open>h / self.n_states_per_label\<close> when \<^verbatim>\<open>n_states_per_label\<close> is a list: numpy turns
  the list into a vector and broadcasts it along the last axis of \<^verbatim>\<open>h\<close>, the columns of
  the grid. The shapes \<^verbatim>\<open>(height, width)\<close> and \<^verbatim>\<open>(k,)\<close> are compatible when
  \<^verbatim>\<open>width = k\<close>, when \<^verbatim>\<open>k = 1\<close> or when \<^verbatim>\<open>width = 1\<close>; otherwise the division raises.
\<close>

definition np_floordiv_seq :: "label_map \<Rightarrow> int list \<Rightarrow> error + label_map" where
  "np_floordiv_seq h l =
     (if list_all (\<lambda>r. length r = length l) h
      then Inr (map (\<lambda>r. map2 (\<lambda>v d. v div d) r l) h)
      else if length l = 1 then Inr (map (map (\<lambda>v. v div l ! 0)) h)
      else if list_all (\<lambda>r. length r = 1) h then Inr (map (\<lambda>r. map (\<lambda>d. r ! 0 div d) l) h)
      else Inl ValueError)"

text \<open>\<^verbatim>\<open>loss\<close> of a model built with a list.\<close>

definition loss_seq :: "int list \<Rightarrow> label_map \<Rightarrow> label_map \<Rightarrow> error + nat" where
  "loss_seq spl h h_hat =
     (case np_floordiv_seq h spl of
        Inl e \<Rightarrow> Inl e
      | Inr a \<Rightarrow>
          (case np_floordiv_seq h_hat spl of
             Inl e \<Rightarrow> Inl e
           | Inr b \<Rightarrow> Inr (np_sum (np_not_equal a b))))"


subsection \<open>The arrays in memory\<close>

text \<open>
  Whether a call changes the arrays it is given depends on which array each statement
  writes. The memory holds the real arrays by address, the three-dimensional ones and the
  vectors apart; a new array takes the next address. \<^verbatim>\<open>np.repeat\<close> and \<^verbatim>\<open>.copy()\<close>
  make new arrays; \<^verbatim>\<open>a[mask] = v\<close> and \<^verbatim>\<open>a[mask, s] += v\<close> write into the array that
  \<^verbatim>\<open>a\<close> names. The hidden map \<^verbatim>\<open>h\<close> is only read and is passed as a value.
\<close>

type_synonym addr = nat

record memory =
  unaries_at :: "unaries list"
  weights_at :: "weights list"

definition new_unaries :: "unaries \<Rightarrow> memory \<Rightarrow> addr \<times> memory" where
  "new_unaries v m = (length (unaries_at m), m\<lparr>unaries_at := unaries_at m @ [v]\<rparr>)"

definition new_weights :: "weights \<Rightarrow> memory \<Rightarrow> addr \<times> memory" where
  "new_weights v m = (length (weights_at m), m\<lparr>weights_at := weights_at m @ [v]\<rparr>)"

text \<open>Every array of \<open>m\<close> is in \<open>m'\<close>, at its address and with its content.\<close>

definition memory_extends :: "memory \<Rightarrow> memory \<Rightarrow> bool" where
  "memory_extends m m' =
     (prefix (unaries_at m) (unaries_at m') \<and> prefix (weights_at m) (weights_at m'))"

text \<open>
  The loop of \<^verbatim>\<open>loss_augment\<close> on the arrays named \<^verbatim>\<open>x_wide\<close> and \<^verbatim>\<open>unary_params\<close>:
  each round writes into \<^verbatim>\<open>x_wide\<close>. An exception leaves the memory as it is then.
\<close>

fun loss_augment_loop_mem ::
  "latent_crf \<Rightarrow> label_map \<Rightarrow> addr \<Rightarrow> nat list \<Rightarrow> addr \<Rightarrow> memory \<Rightarrow> (error + addr) \<times> memory" where
  "loss_augment_loop_mem self h unary_params [] x_wide m = (Inr x_wide, m)"
| "loss_augment_loop_mem self h unary_params (s # rest) x_wide m =
     (case loss_augment_step self h (weights_at m ! unary_params) s (unaries_at m ! x_wide) of
        Inl e \<Rightarrow> (Inl e, m)
      | Inr v \<Rightarrow>
          loss_augment_loop_mem self h unary_params rest x_wide
            (m\<lparr>unaries_at := (unaries_at m)[x_wide := v]\<rparr>))"

text \<open>
  \<^verbatim>\<open>LatentCRF.loss_augment(self, x, h, w)\<close> on the arrays at the addresses \<open>x\<close> and \<open>w\<close>:
  \<^verbatim>\<open>x_wide = np.repeat(x, ...)\<close> is a new array, \<^verbatim>\<open>unary_params = w[:self.n_states].copy()\<close>
  is a new vector, \<^verbatim>\<open>unary_params[unary_params == 0] = 1e-10\<close> writes into that vector, and
  the address of \<^verbatim>\<open>x_wide\<close> is returned.
\<close>

definition loss_augment_mem ::
  "latent_crf \<Rightarrow> addr \<Rightarrow> label_map \<Rightarrow> addr \<Rightarrow> memory \<Rightarrow> (error + addr) \<times> memory" where
  "loss_augment_mem self x h w m =
     (let (x_wide, m1) = new_unaries (np_repeat (unaries_at m ! x) (n_states_per_label self)) m;
          (unary_params, m2) = new_weights (take (n_states self) (weights_at m1 ! w)) m1;
          m3 = m2\<lparr>weights_at :=
                   (weights_at m2)[unary_params := replace_zeros (weights_at m2 ! unary_params)]\<rparr>
      in loss_augment_loop_mem self h unary_params [0..<n_states self] x_wide m3)"

text \<open>
  \<^verbatim>\<open>inference(self, x, w)\<close> and \<^verbatim>\<open>loss_augmented_inference(self, x, h, w, relaxed)\<close> of
  both latent classes. The inference of the base class receives the arrays \<^verbatim>\<open>x_wide\<close> and
  \<^verbatim>\<open>w\<close> themselves, so it is a parameter that acts on the memory; its result (a label map,
  or marginals when \<^verbatim>\<open>relaxed\<close>) is left abstract.
\<close>

definition inference_mem ::
  "(addr \<Rightarrow> addr \<Rightarrow> memory \<Rightarrow> 'r \<times> memory) \<Rightarrow> latent_crf \<Rightarrow> addr \<Rightarrow> addr \<Rightarrow> memory
     \<Rightarrow> 'r \<times> memory" where
  "inference_mem base_inference self x w m =
     (let (x_wide, m1) = new_unaries (np_repeat (unaries_at m ! x) (n_states_per_label self)) m
      in base_inference x_wide w m1)"

definition loss_augmented_inference_mem ::
  "(addr \<Rightarrow> addr \<Rightarrow> memory \<Rightarrow> 'r \<times> memory) \<Rightarrow> latent_crf \<Rightarrow> addr \<Rightarrow> label_map \<Rightarrow> addr
     \<Rightarrow> memory \<Rightarrow> (error + 'r) \<times> memory" where
  "loss_augmented_inference_mem base_inference self x h w m =
     (case loss_augment_mem self x h w m of
        (Inl e, m1) \<Rightarrow> (Inl e, m1)
      | (Inr x_wide, m1) \<Rightarrow> (let (r, m2) = base_inference x_wide w m1 in (Inr r, m2)))"

text \<open>
  Modelled from the spec: the inference of the base classes is not among the sources. The
  spec requires it to be pure: it must not change the arrays it is given. Here it changes
  no array that exists when it is called.
\<close>

definition leaves_arrays_alone :: "(addr \<Rightarrow> addr \<Rightarrow> memory \<Rightarrow> 'r \<times> memory) \<Rightarrow> bool" where
  "leaves_arrays_alone base_inference =
     (\<forall>x w m. memory_extends m (snd (base_inference x w m)))"

text \<open>The node-wise maximiser, reading its arrays from the memory.\<close>

definition nodewise_argmax_mem :: "addr \<Rightarrow> addr \<Rightarrow> memory \<Rightarrow> label_map \<times> memory" where
  "nodewise_argmax_mem x_wide w m = (nodewise_argmax (unaries_at m ! x_wide) (weights_at m ! w), m)"

text \<open>A memory that holds the unaries of one node and one weight vector.\<close>

definition memory_example :: memory where
  "memory_example = \<lparr>unaries_at = [[[[1, 2]]]], weights_at = [[0, 2, 4, 0]]\<rparr>"

section \<open>Properties of the loss\<close>

lemma count_not_equal_row:
  assumes "length r = length s"
  shows "length (filter (\<lambda>b. b) (map2 (\<lambda>u v. u \<noteq> v) r s)) =
         card {j. j < length r \<and> r ! j \<noteq> s ! j}"
proof -
  have "{j. j < length (map2 (\<lambda>u v. u \<noteq> v) r s) \<and> (map2 (\<lambda>u v. u \<noteq> v) r s) ! j} =
        {j. j < length r \<and> r ! j \<noteq> s ! j}"
    using assms by auto
  then show ?thesis
    by (simp only: length_filter_conv_card)
qed

lemma card_pairs_sum:
  fixes n :: nat and f :: "nat \<Rightarrow> nat"
  shows "card {(i, j). i < n \<and> j < f i \<and> P i j} = (\<Sum>i = 0..<n. card {j. j < f i \<and> P i j})"
proof -
  have eq: "{(i, j). i < n \<and> j < f i \<and> P i j} = (SIGMA i:{0..<n}. {j. j < f i \<and> P i j})"
    by auto
  have "card (SIGMA i:{0..<n}. {j. j < f i \<and> P i j}) =
        (\<Sum>i\<in>{0..<n}. card {j. j < f i \<and> P i j})"
    by (rule card_SigmaI) auto
  with eq show ?thesis by simp
qed

lemma np_sum_not_equal:
  assumes "shape2 a = shape2 b"
  shows "np_sum (np_not_equal a b) = hamming_distance a b"
proof -
  have len: "length a = length b"
    using assms unfolding shape2_def by (rule map_eq_imp_length_eq)
  have rows: "length (a ! i) = length (b ! i)" if "i < length a" for i
  proof -
    have "shape2 a ! i = shape2 b ! i" using assms by simp
    then show ?thesis using that len by (simp add: shape2_def)
  qed
  have "np_sum (np_not_equal a b) =
        (\<Sum>i = 0..<length a. length (filter (\<lambda>b. b) (map2 (\<lambda>u v. u \<noteq> v) (a ! i) (b ! i))))"
    using len by (simp add: np_sum_def np_not_equal_def sum_list_sum_nth)
  also have "\<dots> = (\<Sum>i = 0..<length a. card {j. j < length (a ! i) \<and> a ! i ! j \<noteq> b ! i ! j})"
  proof (rule sum.cong)
    fix i assume "i \<in> {0..<length a}"
    then have "length (a ! i) = length (b ! i)" by (simp add: rows)
    then show "length (filter (\<lambda>b. b) (map2 (\<lambda>u v. u \<noteq> v) (a ! i) (b ! i))) =
               card {j. j < length (a ! i) \<and> a ! i ! j \<noteq> b ! i ! j}"
      by (rule count_not_equal_row)
  qed (rule refl)
  also have "\<dots> = hamming_distance a b"
    unfolding hamming_distance_def by (simp only: card_pairs_sum)
  finally show ?thesis .
qed

lemma np_floordiv_visible:
  "np_floordiv h (n_states_per_label self) = visible_labels self h"
  by (simp add: np_floordiv_def visible_labels_def)

lemma shape2_np_floordiv: "shape2 (np_floordiv h k) = shape2 h"
  by (simp add: shape2_def np_floordiv_def)

text \<open>
  C6. For hidden maps \<open>h\<close> and \<open>h_hat\<close> of equal shape, \<open>loss h h_hat\<close> is the Hamming
  distance of the two maps after each hidden state is collapsed to its visible label:
  the number of nodes where \<open>h // n_states_per_label\<close> and
  \<open>h_hat // n_states_per_label\<close> differ.
\<close>

theorem loss_is_collapsed_hamming:
  assumes "shape2 h = shape2 h_hat"
  shows "loss self h h_hat = hamming_distance (visible_labels self h) (visible_labels self h_hat)"
proof -
  have "shape2 (np_floordiv h (n_states_per_label self)) =
        shape2 (np_floordiv h_hat (n_states_per_label self))"
    using assms by (simp only: shape2_np_floordiv)
  then show ?thesis
    unfolding loss_def by (simp only: np_sum_not_equal np_floordiv_visible)
qed

text \<open>
  Witness of C6: a 2 by 2 map with two states per label; the two maps disagree, after
  collapsing, at two nodes.
\<close>

theorem loss_is_collapsed_hamming_witness:
  "shape2 [[0, 1], [2, 3 :: int]] = shape2 [[1, 3], [2, 0 :: int]] \<and>
   hamming_distance (visible_labels (LatentGridCRF_init 2 2) [[0, 1], [2, 3]])
                    (visible_labels (LatentGridCRF_init 2 2) [[1, 3], [2, 0]]) = 2"
proof -
  have s: "shape2 [[0, 1], [2, 3 :: int]] = shape2 [[1, 3], [2, 0 :: int]]"
    by (simp add: shape2_def)
  have "loss (LatentGridCRF_init 2 2) [[0, 1], [2, 3]] [[1, 3], [2, 0]] = 2"
    by (simp add: loss_def np_sum_def np_not_equal_def np_floordiv_def LatentGridCRF_init_def)
  with s loss_is_collapsed_hamming [OF s, of "LatentGridCRF_init 2 2"] show ?thesis
    by simp
qed

lemma map2_commute: "map2 f xs ys = map2 (\<lambda>a b. f b a) ys xs"
proof (induction xs arbitrary: ys)
  case Nil
  then show ?case by simp
next
  case (Cons x xs)
  then show ?case by (cases ys) simp_all
qed

lemma np_not_equal_commute: "np_not_equal a b = np_not_equal b a"
proof -
  have row: "map2 (\<lambda>u v. u \<noteq> v) r s = map2 (\<lambda>u v. u \<noteq> v) s r" for r s :: "int list"
    by (subst map2_commute) (simp add: neq_commute)
  have "map2 (map2 (\<lambda>u v. u \<noteq> v)) a b = map2 (\<lambda>s r. map2 (\<lambda>u v. u \<noteq> (v::int)) r s) b a"
    by (rule map2_commute)
  also have "\<dots> = map2 (map2 (\<lambda>u v. u \<noteq> v)) b a"
    by (simp only: row[symmetric])
  finally show ?thesis by (simp only: np_not_equal_def)
qed

lemma np_sum_not_equal_self: "np_sum (np_not_equal a a) = 0"
proof -
  have row: "filter (\<lambda>b. b) (map2 (\<lambda>u v. u \<noteq> v) r r) = []" for r :: "int list"
    by (induction r) simp_all
  show ?thesis
    by (simp add: np_sum_def np_not_equal_def zip_same_conv_map row comp_def)
qed

text \<open>
  C7. For hidden maps \<open>h\<close> and \<open>h_hat\<close> of equal shape, \<open>loss h h_hat = loss h_hat h\<close>,
  and \<open>loss h h = 0\<close>.
\<close>

theorem loss_symmetric_and_zero_on_diagonal:
  assumes "shape2 h = shape2 h_hat"
  shows "loss self h h_hat = loss self h_hat h \<and> loss self h h = 0"
  unfolding loss_def
  by (simp only: np_not_equal_commute[of "np_floordiv h_hat (n_states_per_label self)"]
        np_sum_not_equal_self simp_thms)

text \<open>Witness of C7, on the maps of the witness of C6.\<close>

theorem loss_symmetric_and_zero_on_diagonal_witness:
  "shape2 [[0, 1], [2, 3 :: int]] = shape2 [[1, 3], [2, 0 :: int]] \<and>
   loss (LatentGridCRF_init 2 2) [[0, 1], [2, 3]] [[1, 3], [2, 0]] = 2 \<and>
   loss (LatentGridCRF_init 2 2) [[1, 3], [2, 0]] [[0, 1], [2, 3]] = 2 \<and>
   loss (LatentGridCRF_init 2 2) [[0, 1], [2, 3]] [[0, 1], [2, 3]] = 0"
proof -
  have s: "shape2 [[0, 1], [2, 3 :: int]] = shape2 [[1, 3], [2, 0 :: int]]"
    by (simp add: shape2_def)
  have "loss (LatentGridCRF_init 2 2) [[0, 1], [2, 3]] [[1, 3], [2, 0]] = 2"
    by (simp add: loss_def np_sum_def np_not_equal_def np_floordiv_def LatentGridCRF_init_def)
  with s loss_symmetric_and_zero_on_diagonal [OF s, of "LatentGridCRF_init 2 2"] show ?thesis
    by simp
qed

section \<open>Properties of latent\<close>

lemma shape2_eq_lengths:
  assumes "shape2 a = shape2 b"
  shows "length a = length b" and "\<And>i. i < length a \<Longrightarrow> length (a ! i) = length (b ! i)"
proof -
  show len: "length a = length b"
    using assms unfolding shape2_def by (rule map_eq_imp_length_eq)
  fix i assume "i < length a"
  moreover have "shape2 a ! i = shape2 b ! i" using assms by simp
  ultimately show "length (a ! i) = length (b ! i)" using len by (simp add: shape2_def)
qed

lemma any_not_equal_row:
  assumes "length r = length s"
  shows "list_ex (\<lambda>b. b) (map2 (\<lambda>u v. u \<noteq> v) r s) \<longleftrightarrow> r \<noteq> s"
  using assms by (induction r s rule: list_induct2) auto

lemma np_any_mask_not_equal:
  assumes "shape2 a = shape2 b"
  shows "np_any_mask (np_not_equal a b) \<longleftrightarrow> a \<noteq> b"
proof -
  have len: "length a = length b" using assms by (rule shape2_eq_lengths)
  from len assms show ?thesis
  proof (induction a b rule: list_induct2)
    case Nil
    then show ?case by (simp add: np_any_mask_def np_not_equal_def)
  next
    case (Cons r a s b)
    then have "length r = length s" and "shape2 a = shape2 b"
      by (simp_all add: shape2_def)
    with Cons.IH show ?case
      by (simp add: np_any_mask_def np_not_equal_def any_not_equal_row)
  qed
qed

lemma wrap_int64_id: "is_int64 v \<Longrightarrow> wrap_int64 v = v"
  by (simp add: is_int64_def wrap_int64_def)

lemma np_times_wraps_example: "np_times [[2 ^ 62]] 2 = [[- (2 ^ 63)]]"
  by (simp add: np_times_def wrap_int64_def)

lemma np_floordiv_np_times:
  assumes "0 < n_states_per_label self" and "labels_fit_int64 self y"
  shows "np_floordiv (np_times y (n_states_per_label self)) (n_states_per_label self) = y"
proof -
  have "map (\<lambda>v. wrap_int64 (v * int (n_states_per_label self)) div int (n_states_per_label self)) r = r"
    if "r \<in> set y" for r
  proof -
    have "wrap_int64 (v * int (n_states_per_label self)) div int (n_states_per_label self) = v"
      if "v \<in> set r" for v
    proof -
      from assms(2) \<open>r \<in> set y\<close> that have "is_int64 (v * int (n_states_per_label self))"
        by (simp add: labels_fit_int64_def list_all_iff)
      then show ?thesis using assms(1) by (simp add: wrap_int64_id)
    qed
    then show ?thesis by (simp add: map_idI)
  qed
  then show ?thesis
    by (simp add: np_floordiv_def np_times_def comp_def map_idI)
qed

lemma labels_in_range_fit:
  assumes "labels_in_range self y"
    and "n_labels self * n_states_per_label self \<le> 2 ^ 63"
  shows "labels_fit_int64 self y"
proof -
  have "is_int64 (v * int (n_states_per_label self))"
    if v: "0 \<le> v" "v < int (n_labels self)" for v
  proof -
    have "v * int (n_states_per_label self) \<le> int (n_labels self) * int (n_states_per_label self)"
      using v by (simp add: mult_right_mono)
    moreover have "v * int (n_states_per_label self) < 2 ^ 63 \<or> n_states_per_label self = 0"
    proof (cases "n_states_per_label self = 0")
      case True
      then show ?thesis by simp
    next
      case False
      then have "v * int (n_states_per_label self) < int (n_labels self) * int (n_states_per_label self)"
        using v by simp
      also have "\<dots> = int (n_labels self * n_states_per_label self)" by simp
      also have "\<dots> \<le> 2 ^ 63" using assms(2) by (simp only: of_nat_le_iff[symmetric, where ?'a = int]) simp
      finally show ?thesis by simp
    qed
    moreover have "0 \<le> v * int (n_states_per_label self)" using v by simp
    ultimately show ?thesis by (auto simp: is_int64_def)
  qed
  with assms(1) show ?thesis
    by (auto simp: labels_fit_int64_def labels_in_range_def list_all_iff)
qed

lemma shape2_map2_map2:
  assumes "shape2 a = shape2 b"
  shows "shape2 (map2 (map2 f) a b) = shape2 b"
proof -
  have len: "length a = length b"
    and rows: "\<And>i. i < length a \<Longrightarrow> length (a ! i) = length (b ! i)"
    using shape2_eq_lengths[OF assms] by simp_all
  show ?thesis
    unfolding shape2_def by (rule nth_equalityI) (simp_all add: len rows)
qed

lemma shape2_other_states: "shape2 (other_states self y) = shape2 y"
  by (simp add: shape2_def other_states_def comp_def)

lemma latent_unaries_shape:
  assumes "latent_unaries self x y w = Inr x_wide"
  shows "shape2 x_wide = shape2 y"
proof -
  from assms have sh: "shape2 y = shape2 (np_repeat x (n_states_per_label self))"
    by (simp add: latent_unaries_def Let_def split: if_splits)
  then have "shape2 (other_states self y) = shape2 (np_repeat x (n_states_per_label self))"
    by (simp add: shape2_other_states)
  from shape2_map2_map2[OF this] sh assms show ?thesis
    by (auto simp: latent_unaries_def Let_def split: if_splits)
qed

lemma length_repeat_cell: "length (concat (map (replicate k) cell)) = k * length cell"
  by (induction cell) simp_all

lemma shape2_np_repeat: "shape2 (np_repeat x k) = shape2 x"
  by (simp add: shape2_def np_repeat_def)

lemma all_cells_np_repeat:
  "all_cells P (np_repeat x k) = all_cells (\<lambda>cell. P (concat (map (replicate k) cell))) x"
  by (simp add: all_cells_def np_repeat_def list_all_iff)

lemma all_cells_mono:
  "all_cells P x \<Longrightarrow> (\<And>cell. P cell \<Longrightarrow> Q cell) \<Longrightarrow> all_cells Q x"
  by (auto simp: all_cells_def list_all_iff)

lemma all_cells_nth:
  "all_cells P x \<Longrightarrow> i < length x \<Longrightarrow> j < length (x ! i) \<Longrightarrow> P (x ! i ! j)"
  by (simp add: all_cells_def list_all_length)

lemma all_cells_iff_nth:
  "all_cells P x \<longleftrightarrow> (\<forall>i<length x. \<forall>j<length (x ! i). P (x ! i ! j))"
  by (simp add: all_cells_def list_all_length)

lemma nth_repeat_cell:
  "s < k * length cell \<Longrightarrow> concat (map (replicate k) cell) ! s = cell ! (s div k)"
proof (induction cell arbitrary: s)
  case Nil
  then show ?case by simp
next
  case (Cons a cell)
  show ?case
  proof (cases "s < k")
    case True
    then show ?thesis by (simp add: nth_append)
  next
    case False
    then have ks: "k \<le> s" by simp
    with Cons.prems have "s - k < k * length cell" by simp
    then have "concat (map (replicate k) cell) ! (s - k) = cell ! ((s - k) div k)"
      by (rule Cons.IH)
    moreover from Cons.prems have "0 < k" by (cases k) simp_all
    then have "s div k = Suc ((s - k) div k)"
      using ks by (simp add: le_div_geq)
    ultimately show ?thesis using False by (simp add: nth_append)
  qed
qed

lemma nth_np_repeat:
  assumes "i < length x" "j < length (x ! i)" "s < k * length (x ! i ! j)"
  shows "np_repeat x k ! i ! j ! s = x ! i ! j ! (s div k)"
  using assms by (simp add: np_repeat_def nth_repeat_cell)

lemma latent_unaries_returns:
  assumes "well_shaped self x y w"
  shows "\<exists>x_wide. latent_unaries self x y w = Inr x_wide \<and> shape2 x_wide = shape2 y"
proof -
  let ?n = "n_states_per_label self"
  from assms have ns: "n_states self = n_labels self * ?n"
    and sh: "shape2 y = shape2 x"
    and cells: "all_cells (\<lambda>cell. length cell = n_labels self) x"
    and lw: "n_states self \<le> length w"
    by (simp_all add: well_shaped_def)
  have k: "length (get_unary_weights self w) = n_states self"
    using lw by (simp add: get_unary_weights_def)
  have wide: "all_cells (\<lambda>cell. length cell = n_states self) (np_repeat x ?n)"
    unfolding all_cells_np_repeat
    by (rule all_cells_mono[OF cells]) (simp add: length_repeat_cell ns)
  have c1: "all_cells (\<lambda>cell. length (get_unary_weights self w) = length cell \<or>
              length (get_unary_weights self w) = 1 \<or> length cell = 1) (np_repeat x ?n)"
    by (rule all_cells_mono[OF wide]) (simp add: k)
  have c2: "all_cells (\<lambda>cell. length cell = n_states self \<and>
              (if length cell = 1 then length (get_unary_weights self w) else length cell) = n_states self) (np_repeat x ?n)"
    by (rule all_cells_mono[OF wide]) (simp add: k)
  have c3: "shape2 y = shape2 (np_repeat x ?n)"
    by (simp add: shape2_np_repeat sh)
  have lens: "length (other_states self y) = length y" "length (np_repeat x ?n) = length y"
    using shape2_eq_lengths(1)[OF c3] by (simp_all add: other_states_def)
  have rows: "length (other_states self y ! i) = length (y ! i)"
             "length (np_repeat x ?n ! i) = length (y ! i)" if "i < length y" for i
    using that shape2_eq_lengths(2)[OF c3 that] by (simp_all add: other_states_def)
  have "latent_unaries self x y w =
        Inr (map2 (map2 (\<lambda>forbidden cell.
               map (\<lambda>s. if forbidden ! s
                         then (if length (get_unary_weights self w) = 1
                               then forbidding_values (get_unary_weights self w) ! 0
                               else forbidding_values (get_unary_weights self w) ! s)
                         else cell ! s) [0..<length cell]))
             (other_states self y) (np_repeat x ?n))"
    using c1 c2 c3 by (simp add: latent_unaries_def Let_def)
  moreover have "shape2 (map2 (map2 f) (other_states self y) (np_repeat x ?n)) = shape2 y" for f :: "bool list \<Rightarrow> real list \<Rightarrow> real list"
    unfolding shape2_def
    by (rule nth_equalityI) (simp_all add: lens rows)
  ultimately show ?thesis by simp
qed

lemma np_any_iff: "np_any w \<longleftrightarrow> (\<exists>v\<in>set w. v \<noteq> 0)"
  by (simp add: np_any_def list_ex_iff)

text \<open>
  The model run on one node with two labels and two states per label: the scores are 1 for
  label 0 and 2 for label 1, and the node's label is 1. With unary weights 1, the states of
  label 0 are forbidden by the score -1000 and the node takes state 2. With unary weights 0,
  the sign is 0, so the forbidden states get the score 0; every potential is 0 and the
  node takes state 0, which does not belong to its label.
\<close>

lemma model_example:
  "n_labels (LatentGridCRF_init 2 2) = 2"
  "n_states_per_label (LatentGridCRF_init 2 2) = 2"
  "n_states (LatentGridCRF_init 2 2) = 4"
  by (simp_all add: LatentGridCRF_init_def)

lemma np_repeat_example: "np_repeat [[[1, 2]]] 2 = [[[1, 1, 2, 2]]]"
  by (simp add: np_repeat_def numeral_2_eq_2)

lemma latent_unaries_example:
  "latent_unaries (LatentGridCRF_init 2 2) [[[1, 2]]] [[1]] [1, 1, 1, 1] =
   Inr [[[- 1000, - 1000, 2, 2]]]"
  by (simp add: latent_unaries_def LatentGridCRF_init_def np_repeat_example get_unary_weights_def
      other_states_def forbidding_values_def all_cells_def shape2_def Let_def upt_rec)

lemma latent_unaries_example_zero:
  "latent_unaries (LatentGridCRF_init 2 2) [[[1, 2]]] [[1]] [0, 0, 0, 0] = Inr [[[0, 0, 2, 2]]]"
  by (simp add: latent_unaries_def LatentGridCRF_init_def np_repeat_example get_unary_weights_def
      other_states_def forbidding_values_def all_cells_def shape2_def Let_def upt_rec)

lemma latent_unaries_example_pairwise:
  "latent_unaries (LatentGridCRF_init 2 2) [[[1, 2]]] [[1]] [0, 0, 0, 0, 1] =
   Inr [[[0, 0, 2, 2]]]"
  by (simp add: latent_unaries_def LatentGridCRF_init_def np_repeat_example get_unary_weights_def
      other_states_def forbidding_values_def all_cells_def shape2_def Let_def upt_rec)

lemma nodewise_argmax_example:
  "nodewise_argmax [[[- 1000, - 1000, 2, 2]]] [1, 1, 1, 1] = [[2]]"
  "nodewise_argmax [[[0, 0, 2, 2]]] [0, 0, 0, 0] = [[0]]"
  "nodewise_argmax [[[0, 0, 2, 2]]] [0, 0, 0, 0, 1] = [[0]]"
  by (simp_all add: nodewise_argmax_def)

lemma labels_every_node_nodewise_argmax: "labels_every_node nodewise_argmax"
  by (simp add: labels_every_node_def nodewise_argmax_def shape2_def)

lemma well_shaped_example:
  "well_shaped (LatentGridCRF_init 2 2) [[[1, 2]]] [[1]] [1, 1, 1, 1]"
  "well_shaped (LatentGridCRF_init 2 2) [[[1, 2]]] [[1]] [0, 2, 4, 0]"
  by (simp_all add: well_shaped_def LatentGridCRF_init_def shape2_def all_cells_def)

text \<open>
  C1. With at least one state per label and an inference that labels every node, whatever
  \<open>x\<close> and \<open>w\<close> (zero or not) are, and for every label map \<open>y\<close> whose labels times
  \<open>n_states_per_label\<close> are 64-bit integers (so for every map of labels in \<open>[0, n_labels)\<close>),
  every hidden map \<open>h\<close> that \<open>latent x y w\<close> returns satisfies
  \<open>h // n_states_per_label = y\<close> at every node; and \<open>latent\<close> does return on well-shaped
  inputs.
\<close>

theorem latent_returns_consistent:
  assumes "0 < n_states_per_label self"
    and "labels_every_node inference"
    and "labels_fit_int64 self y"
  shows "(\<forall>ev h. latent inference self x y w = Inr (ev, h) \<longrightarrow>
            np_floordiv h (n_states_per_label self) = y) \<and>
         (well_shaped self x y w \<longrightarrow>
            (\<exists>ev h. latent inference self x y w = Inr (ev, h)))"
proof (intro conjI allI impI)
  fix ev h
  assume r: "latent inference self x y w = Inr (ev, h)"
  then obtain x_wide where xw: "latent_unaries self x y w = Inr x_wide"
    by (cases "latent_unaries self x y w") (simp_all add: latent_def)
  let ?h = "inference x_wide w"
  have "shape2 ?h = shape2 x_wide"
    using assms(2) by (simp add: labels_every_node_def)
  then have sh: "shape2 ?h = shape2 y"
    using latent_unaries_shape[OF xw] by simp
  then have sh': "shape2 (np_floordiv ?h (n_states_per_label self)) = shape2 y"
    by (simp add: shape2_np_floordiv)
  show "np_floordiv h (n_states_per_label self) = y"
  proof (cases "np_any_mask (np_not_equal (np_floordiv ?h (n_states_per_label self)) y)")
    case True
    with r xw have "h = np_times y (n_states_per_label self)"
      by (auto simp: latent_def Let_def split: if_splits)
    with assms(1,3) show ?thesis by (simp add: np_floordiv_np_times)
  next
    case False
    with r xw have "h = ?h"
      by (simp add: latent_def Let_def split: if_splits)
    with False sh' show ?thesis by (simp add: np_any_mask_not_equal)
  qed
next
  assume ws: "well_shaped self x y w"
  from latent_unaries_returns[OF ws] obtain x_wide
    where xw: "latent_unaries self x y w = Inr x_wide"
    by blast
  then show "\<exists>ev h. latent inference self x y w = Inr (ev, h)"
    by (simp add: latent_def Let_def)
qed

text \<open>
  Witness of C1: the one-node model with unary weights 1, where the node takes state 2, of
  label 1; the label 1 lies in \<open>[0, n_labels)\<close> and its product with the two states per
  label is a 64-bit integer.
\<close>

lemma labels_fit_int64_example: "labels_fit_int64 (LatentGridCRF_init 2 2) [[1]]"
proof (rule labels_in_range_fit)
  show "labels_in_range (LatentGridCRF_init 2 2) [[1]]"
    by (simp add: labels_in_range_def model_example)
  show "n_labels (LatentGridCRF_init 2 2) * n_states_per_label (LatentGridCRF_init 2 2) \<le> 2 ^ 63"
    by (simp add: model_example)
qed

theorem latent_returns_consistent_witness:
  "0 < n_states_per_label (LatentGridCRF_init 2 2) \<and>
   labels_every_node nodewise_argmax \<and>
   labels_fit_int64 (LatentGridCRF_init 2 2) [[1]] \<and>
   well_shaped (LatentGridCRF_init 2 2) [[[1, 2]]] [[1]] [1, 1, 1, 1] \<and>
   latent nodewise_argmax (LatentGridCRF_init 2 2) [[[1, 2]]] [[1]] [1, 1, 1, 1] = Inr ([], [[2]]) \<and>
   np_floordiv [[2]] (n_states_per_label (LatentGridCRF_init 2 2)) = [[1]]"
proof -
  have n: "0 < n_states_per_label (LatentGridCRF_init 2 2)"
    by (simp add: model_example)
  have r: "latent nodewise_argmax (LatentGridCRF_init 2 2) [[[1, 2]]] [[1]] [1, 1, 1, 1] =
           Inr ([], [[2]])"
    by (simp add: latent_def latent_unaries_example nodewise_argmax_example
        np_any_mask_def np_not_equal_def np_floordiv_def model_example)
  have "np_floordiv [[2]] (n_states_per_label (LatentGridCRF_init 2 2)) = [[1]]"
    using latent_returns_consistent
      [OF n labels_every_node_nodewise_argmax labels_fit_int64_example,
       of "[[[1, 2]]]" "[1, 1, 1, 1]"] r
    by simp
  with n r well_shaped_example(1) labels_every_node_nodewise_argmax labels_fit_int64_example
  show ?thesis by simp
qed

text \<open>
  C2. When the map computed inside \<open>latent x y w\<close> is inconsistent with \<open>y\<close> and \<open>w\<close> has
  a non-zero entry, \<open>latent\<close> prints the line \<^verbatim>\<open>inconsistent h and y\<close>, enters the
  debugger, and returns \<open>y * n_states_per_label\<close>, a function of \<open>y\<close> alone, in place of
  the inconsistent map.
\<close>

theorem latent_reports_and_falls_back:
  assumes "latent_unaries self x y w = Inr x_wide"
    and "shape2 (inference x_wide w) = shape2 y"
    and "np_floordiv (inference x_wide w) (n_states_per_label self) \<noteq> y"
    and "\<exists>v\<in>set w. v \<noteq> 0"
  shows "latent inference self x y w =
         Inr ([Print ''inconsistent h and y'', Tracer], np_times y (n_states_per_label self))"
proof -
  have "shape2 (np_floordiv (inference x_wide w) (n_states_per_label self)) = shape2 y"
    using assms(2) by (simp add: shape2_np_floordiv)
  then have "np_any_mask (np_not_equal (np_floordiv (inference x_wide w) (n_states_per_label self)) y)"
    using assms(3) by (simp add: np_any_mask_not_equal)
  moreover have "np_any w" using assms(4) by (simp add: np_any_iff)
  ultimately show ?thesis
    using assms(1,2) by (simp add: latent_def Let_def)
qed

text \<open>
  Witness of C2: the one-node model with unary weights 0 and one non-zero pairwise weight;
  the node takes state 0, of label 0, while its label is 1.
\<close>

theorem latent_reports_and_falls_back_witness:
  "latent_unaries (LatentGridCRF_init 2 2) [[[1, 2]]] [[1]] [0, 0, 0, 0, 1] = Inr [[[0, 0, 2, 2]]] \<and>
   shape2 (nodewise_argmax [[[0, 0, 2, 2]]] [0, 0, 0, 0, 1]) = shape2 [[1 :: int]] \<and>
   np_floordiv (nodewise_argmax [[[0, 0, 2, 2]]] [0, 0, 0, 0, 1])
     (n_states_per_label (LatentGridCRF_init 2 2)) \<noteq> [[1]] \<and>
   (\<exists>v\<in>set [0, 0, 0, 0, 1 :: real]. v \<noteq> 0) \<and>
   latent nodewise_argmax (LatentGridCRF_init 2 2) [[[1, 2]]] [[1]] [0, 0, 0, 0, 1] =
     Inr ([Print ''inconsistent h and y'', Tracer], [[2]])"
proof -
  have a: "shape2 (nodewise_argmax [[[0, 0, 2, 2]]] [0, 0, 0, 0, 1]) = shape2 [[1 :: int]]"
    by (simp add: nodewise_argmax_example shape2_def)
  have b: "np_floordiv (nodewise_argmax [[[0, 0, 2, 2]]] [0, 0, 0, 0, 1])
             (n_states_per_label (LatentGridCRF_init 2 2)) \<noteq> [[1]]"
    by (simp add: nodewise_argmax_example np_floordiv_def)
  have c: "\<exists>v\<in>set [0, 0, 0, 0, 1 :: real]. v \<noteq> 0"
    by simp
  have "latent nodewise_argmax (LatentGridCRF_init 2 2) [[[1, 2]]] [[1]] [0, 0, 0, 0, 1] =
        Inr ([Print ''inconsistent h and y'', Tracer],
             np_times [[1]] (n_states_per_label (LatentGridCRF_init 2 2)))"
    using latent_reports_and_falls_back
      [of "LatentGridCRF_init 2 2" "[[[1, 2]]]" "[[1]]" "[0, 0, 0, 0, 1]" "[[[0, 0, 2, 2]]]"
          nodewise_argmax]
      latent_unaries_example_pairwise a b c
    by blast
  then show ?thesis
    using a b latent_unaries_example_pairwise
    by (simp add: np_times_def wrap_int64_def model_example)
qed

text \<open>
  C10. When every entry of \<open>w\<close> is zero and the map computed inside \<open>latent x y w\<close> is
  inconsistent with \<open>y\<close>, \<open>latent\<close> returns \<open>y * n_states_per_label\<close> and neither prints
  nor enters the debugger; whenever \<open>latent\<close> does either, \<open>w\<close> has a non-zero entry.
\<close>

theorem latent_silent_for_zero_weights:
  "(latent_unaries self x y w = Inr x_wide \<and>
    shape2 (inference x_wide w) = shape2 y \<and>
    np_floordiv (inference x_wide w) (n_states_per_label self) \<noteq> y \<and>
    set w \<subseteq> {0}
    \<longrightarrow> latent inference self x y w = Inr ([], np_times y (n_states_per_label self))) \<and>
   (\<forall>ev h. latent inference self x y w = Inr (ev, h) \<and> ev \<noteq> [] \<longrightarrow> (\<exists>v\<in>set w. v \<noteq> 0))"
proof (intro conjI allI impI)
  assume a: "latent_unaries self x y w = Inr x_wide \<and>
    shape2 (inference x_wide w) = shape2 y \<and>
    np_floordiv (inference x_wide w) (n_states_per_label self) \<noteq> y \<and>
    set w \<subseteq> {0}"
  then have "shape2 (np_floordiv (inference x_wide w) (n_states_per_label self)) = shape2 y"
    by (simp add: shape2_np_floordiv)
  with a have "np_any_mask (np_not_equal (np_floordiv (inference x_wide w) (n_states_per_label self)) y)"
    by (simp add: np_any_mask_not_equal)
  moreover from a have "\<not> np_any w" by (auto simp: np_any_iff)
  ultimately show "latent inference self x y w = Inr ([], np_times y (n_states_per_label self))"
    using a by (simp add: latent_def Let_def)
next
  fix ev h
  assume "latent inference self x y w = Inr (ev, h) \<and> ev \<noteq> []"
  then have "np_any w"
    by (auto simp: latent_def Let_def split: sum.splits if_splits)
  then show "\<exists>v\<in>set w. v \<noteq> 0" by (simp add: np_any_iff)
qed

text \<open>
  Witness of C10: the one-node model with the zero weight vector.
\<close>

theorem latent_silent_for_zero_weights_witness:
  "latent_unaries (LatentGridCRF_init 2 2) [[[1, 2]]] [[1]] [0, 0, 0, 0] = Inr [[[0, 0, 2, 2]]] \<and>
   shape2 (nodewise_argmax [[[0, 0, 2, 2]]] [0, 0, 0, 0]) = shape2 [[1 :: int]] \<and>
   np_floordiv (nodewise_argmax [[[0, 0, 2, 2]]] [0, 0, 0, 0])
     (n_states_per_label (LatentGridCRF_init 2 2)) \<noteq> [[1]] \<and>
   set [0, 0, 0, 0 :: real] \<subseteq> {0} \<and>
   latent nodewise_argmax (LatentGridCRF_init 2 2) [[[1, 2]]] [[1]] [0, 0, 0, 0] =
     Inr ([], [[2]])"
proof -
  have a: "shape2 (nodewise_argmax [[[0, 0, 2, 2]]] [0, 0, 0, 0]) = shape2 [[1 :: int]]"
    by (simp add: nodewise_argmax_example shape2_def)
  have b: "np_floordiv (nodewise_argmax [[[0, 0, 2, 2]]] [0, 0, 0, 0])
             (n_states_per_label (LatentGridCRF_init 2 2)) \<noteq> [[1]]"
    by (simp add: nodewise_argmax_example np_floordiv_def)
  have c: "set [0, 0, 0, 0 :: real] \<subseteq> {0}"
    by simp
  have "latent nodewise_argmax (LatentGridCRF_init 2 2) [[[1, 2]]] [[1]] [0, 0, 0, 0] =
        Inr ([], np_times [[1]] (n_states_per_label (LatentGridCRF_init 2 2)))"
    using latent_silent_for_zero_weights
      [of "LatentGridCRF_init 2 2" "[[[1, 2]]]" "[[1]]" "[0, 0, 0, 0]" "[[[0, 0, 2, 2]]]"
          nodewise_argmax]
      latent_unaries_example_zero a b c
    by blast
  then show ?thesis
    using a b latent_unaries_example_zero
    by (simp add: np_times_def wrap_int64_def model_example)
qed

text \<open>
  C3 as stated fails. In the one-node model with the zero weight vector, state 0 is
  inconsistent with the node's label 1, yet the score \<open>latent\<close> writes for it is 0, its
  potential (score times unary weight) is 0 like that of every other state, and the
  inference selects it.
\<close>

theorem latent_forbidden_state_not_clamped_counterexample:
  "latent_unaries (LatentGridCRF_init 2 2) [[[1, 2]]] [[1]] [0, 0, 0, 0] = Inr [[[0, 0, 2, 2]]] \<and>
   int 0 div int (n_states_per_label (LatentGridCRF_init 2 2)) \<noteq> [[1]] ! 0 ! 0 \<and>
   \<not> [[[0, 0, 2, 2 :: real]]] ! 0 ! 0 ! 0 < 0 \<and>
   \<not> [[[0, 0, 2, 2 :: real]]] ! 0 ! 0 ! 0 * [0, 0, 0, 0] ! 0 < 0 \<and>
   nodewise_argmax [[[0, 0, 2, 2]]] [0, 0, 0, 0] = [[0]]"
  by (simp add: latent_unaries_example_zero nodewise_argmax_example model_example)

text \<open>
  C3, amended. On well-shaped inputs \<open>latent\<close> hands to the inference the expanded unaries
  in which the score of every state \<open>s\<close> inconsistent with the node's label is replaced by
  \<open>-1000 * sign (w s)\<close>, the scores of the other states being those of \<open>x\<close>; the potential
  of an inconsistent state, its score times its unary weight, is therefore
  \<open>-1000 * |w s|\<close>: negative when the unary weight of \<open>s\<close> is not zero, and zero when it is.
\<close>

theorem latent_unaries_forbid_by_sign:
  assumes "well_shaped self x y w"
    and "i < length y" and "j < length (y ! i)" and "s < n_states self"
  shows "\<exists>x_wide. latent_unaries self x y w = Inr x_wide \<and>
           x_wide ! i ! j ! s =
             (if int s div int (n_states_per_label self) \<noteq> y ! i ! j
              then - 1000 * sgn (w ! s)
              else x ! i ! j ! (s div n_states_per_label self)) \<and>
           (int s div int (n_states_per_label self) \<noteq> y ! i ! j \<longrightarrow>
              x_wide ! i ! j ! s * w ! s = - 1000 * \<bar>w ! s\<bar>)"
proof -
  let ?n = "n_states_per_label self"
  let ?u = "get_unary_weights self w"
  from assms(1) have ns: "n_states self = n_labels self * ?n"
    and sh: "shape2 y = shape2 x"
    and cells: "all_cells (\<lambda>cell. length cell = n_labels self) x"
    and lw: "n_states self \<le> length w"
    by (simp_all add: well_shaped_def)
  have k: "length ?u = n_states self"
    using lw by (simp add: get_unary_weights_def)
  have ix: "i < length x" using assms(2) shape2_eq_lengths(1)[OF sh] by simp
  have jx: "j < length (x ! i)" using assms(2,3) shape2_eq_lengths(2)[OF sh] by simp
  have cell: "length (x ! i ! j) = n_labels self"
    using all_cells_nth[OF cells ix jx] .
  have wide: "all_cells (\<lambda>cell. length cell = n_states self) (np_repeat x ?n)"
    unfolding all_cells_np_repeat
    by (rule all_cells_mono[OF cells]) (simp add: length_repeat_cell ns)
  have c1: "all_cells (\<lambda>cell. length ?u = length cell \<or> length ?u = 1 \<or> length cell = 1)
              (np_repeat x ?n)"
    by (rule all_cells_mono[OF wide]) (simp add: k)
  have c2: "all_cells (\<lambda>cell. length cell = n_states self \<and>
              (if length cell = 1 then length ?u else length cell) = n_states self) (np_repeat x ?n)"
    by (rule all_cells_mono[OF wide]) (simp add: k)
  have c3: "shape2 y = shape2 (np_repeat x ?n)"
    by (simp add: shape2_np_repeat sh)
  define f where "f = (\<lambda>(forbidden :: bool list) (cell :: real list).
               map (\<lambda>s. if forbidden ! s
                         then (if length ?u = 1 then forbidding_values ?u ! 0
                               else forbidding_values ?u ! s)
                         else cell ! s) [0..<length cell])"
  have res: "latent_unaries self x y w = Inr (map2 (map2 f) (other_states self y) (np_repeat x ?n))"
    using c1 c2 c3 unfolding f_def by (simp add: latent_unaries_def Let_def)
  have ir: "i < length (np_repeat x ?n)" and jr: "j < length (np_repeat x ?n ! i)"
    using ix jx by (simp_all add: np_repeat_def)
  have wl: "length (np_repeat x ?n ! i ! j) = n_states self"
    using all_cells_nth[OF wide ir jr] .
  have io: "i < length (other_states self y)" and jo: "j < length (other_states self y ! i)"
    using assms(2,3) by (simp_all add: other_states_def)
  have oth: "other_states self y ! i ! j ! s = (int s div int ?n \<noteq> y ! i ! j)"
    using assms(2,3,4) by (simp add: other_states_def)
  have val: "(if length ?u = 1 then forbidding_values ?u ! 0 else forbidding_values ?u ! s)
             = - 1000 * sgn (w ! s)"
  proof (cases "length ?u = 1")
    case True
    with k assms(4) have "s = 0" by simp
    with True k show ?thesis
      by (simp add: forbidding_values_def get_unary_weights_def)
  next
    case False
    with k assms(4) show ?thesis
      by (simp add: forbidding_values_def get_unary_weights_def)
  qed
  have rep: "np_repeat x ?n ! i ! j ! s = x ! i ! j ! (s div ?n)"
    using ix jx assms(4) by (simp add: nth_np_repeat cell ns mult.commute)
  have "map2 (map2 f) (other_states self y) (np_repeat x ?n) ! i ! j ! s =
        f (other_states self y ! i ! j) (np_repeat x ?n ! i ! j) ! s"
    using ir jr io jo by simp
  also have "\<dots> = (if int s div int ?n \<noteq> y ! i ! j then - 1000 * sgn (w ! s)
                   else x ! i ! j ! (s div ?n))"
    using assms(4) wl val by (simp add: f_def oth rep split: if_splits)
  finally have entry: "map2 (map2 f) (other_states self y) (np_repeat x ?n) ! i ! j ! s =
        (if int s div int ?n \<noteq> y ! i ! j then - 1000 * sgn (w ! s)
         else x ! i ! j ! (s div ?n))" .
  have "- 1000 * sgn (w ! s) * w ! s = - 1000 * \<bar>w ! s\<bar>"
    by (simp add: abs_sgn mult.commute)
  with res entry show ?thesis by simp
qed

text \<open>
  Witness of C3, amended: state 0 of the one-node model with unary weights 1.
\<close>

theorem latent_unaries_forbid_by_sign_witness:
  "well_shaped (LatentGridCRF_init 2 2) [[[1, 2]]] [[1]] [1, 1, 1, 1] \<and>
   (0 :: nat) < length [[1 :: int]] \<and> (0 :: nat) < length ([[1 :: int]] ! 0) \<and>
   0 < n_states (LatentGridCRF_init 2 2) \<and>
   (\<exists>x_wide. latent_unaries (LatentGridCRF_init 2 2) [[[1, 2]]] [[1]] [1, 1, 1, 1] = Inr x_wide \<and>
      x_wide ! 0 ! 0 ! 0 = - 1000 \<and> x_wide ! 0 ! 0 ! 0 * [1, 1, 1, 1] ! 0 = - 1000)"
proof -
  have i: "(0 :: nat) < length [[1 :: int]]" and j: "(0 :: nat) < length ([[1 :: int]] ! 0)"
    by simp_all
  have s: "0 < n_states (LatentGridCRF_init 2 2)"
    by (simp add: model_example)
  have "\<exists>x_wide. latent_unaries (LatentGridCRF_init 2 2) [[[1, 2]]] [[1]] [1, 1, 1, 1] = Inr x_wide \<and>
      x_wide ! 0 ! 0 ! 0 = - 1000 \<and> x_wide ! 0 ! 0 ! 0 * [1, 1, 1, 1] ! 0 = - 1000"
    using latent_unaries_forbid_by_sign [OF well_shaped_example(1) i j s]
    by (simp add: model_example)
  with well_shaped_example(1) i j s show ?thesis by blast
qed

section \<open>Properties of loss\_augment\<close>

lemma replace_zeros_nonzero: "0 \<notin> set (replace_zeros u)"
  by (auto simp: replace_zeros_def)


lemma loss_augment_loop_no_zero_division:
  "0 \<notin> set unary_params \<Longrightarrow>
   loss_augment_loop self h unary_params states x_wide \<noteq> Inl ZeroDivisionError"
proof (induction states arbitrary: x_wide)
  case Nil
  then show ?case by simp
next
  case (Cons s states)
  have "unary_params ! s \<noteq> 0" if "s < length unary_params"
    using Cons.prems nth_mem[OF that] by auto
  then have "loss_augment_step self h unary_params s x_wide \<noteq> Inl ZeroDivisionError"
    by (simp add: loss_augment_step_def Let_def)
  with Cons show ?case
    by (auto split: sum.splits)
qed

text \<open>
  C9. In \<open>loss_augment\<close> the divisor \<open>unary_params[s]\<close> is never zero: the parameters are
  the first \<open>n_states\<close> entries of \<open>w\<close> with every zero replaced by \<open>1e-10\<close>, none of them
  is zero, and \<open>loss_augment\<close> never fails with a division by zero, for every \<open>w\<close>.
\<close>

theorem loss_augment_never_divides_by_zero:
  "0 \<notin> set (loss_augment_unary_params self w) \<and>
   (\<forall>s. s < n_states self \<and> s < length w \<longrightarrow>
      loss_augment_unary_params self w ! s = (if w ! s = 0 then 1 / 10 ^ 10 else w ! s)) \<and>
   loss_augment self x h w \<noteq> Inl ZeroDivisionError"
proof (intro conjI allI impI)
  show nz: "0 \<notin> set (loss_augment_unary_params self w)"
    by (simp add: loss_augment_unary_params_def replace_zeros_nonzero)
  show "loss_augment self x h w \<noteq> Inl ZeroDivisionError"
    unfolding loss_augment_def Let_def
    by (rule loss_augment_loop_no_zero_division[OF nz])
next
  fix s assume "s < n_states self \<and> s < length w"
  then show "loss_augment_unary_params self w ! s = (if w ! s = 0 then 1 / 10 ^ 10 else w ! s)"
    by (simp add: loss_augment_unary_params_def replace_zeros_def)
qed

text \<open>
  Witness of C9: the weight vector \<open>[0, 2, 4, 0]\<close> of the model with two labels and two
  states per label; its first entry is replaced by \<open>1e-10\<close>.
\<close>

theorem loss_augment_never_divides_by_zero_witness:
  "0 < n_states (LatentGridCRF_init 2 2) \<and> (0 :: nat) < length [0, 2, 4, 0 :: real] \<and>
   loss_augment_unary_params (LatentGridCRF_init 2 2) [0, 2, 4, 0] ! 0 = 1 / 10 ^ 10 \<and>
   0 \<notin> set (loss_augment_unary_params (LatentGridCRF_init 2 2) [0, 2, 4, 0])"
  using loss_augment_never_divides_by_zero
    [of "LatentGridCRF_init 2 2" "[0, 2, 4, 0]" "[[[1, 2]]]" "[[1]]"]
  by (simp add: model_example)

lemma loss_augment_step_entry:
  assumes cells: "all_cells (\<lambda>cell. length cell = N) x_wide"
    and sh: "shape2 h = shape2 x_wide"
    and s: "s < N" "s < length unary_params" "unary_params ! s \<noteq> 0"
  shows "\<exists>r. loss_augment_step self h unary_params s x_wide = Inr r \<and>
           shape2 r = shape2 x_wide \<and>
           all_cells (\<lambda>cell. length cell = N) r \<and>
           (\<forall>i j t. i < length x_wide \<and> j < length (x_wide ! i) \<and> t < N \<longrightarrow>
              r ! i ! j ! t = x_wide ! i ! j ! t +
                (if t = s \<and> h ! i ! j div int (n_states_per_label self) \<noteq>
                              int s div int (n_states_per_label self)
                 then 1 / unary_params ! s else 0))"
proof -
  let ?n = "n_states_per_label self"
  let ?v = "1 / unary_params ! s"
  let ?sel = "np_not_equal_scalar (np_floordiv h ?n) (int s div int ?n)"
  let ?g = "\<lambda>b (cell :: real list). if b then cell[s := cell ! s + ?v] else cell"
  define r where "r = map2 (map2 ?g) ?sel x_wide"
  have len: "length h = length x_wide"
    and rows: "\<And>i. i < length h \<Longrightarrow> length (h ! i) = length (x_wide ! i)"
    using shape2_eq_lengths[OF sh] by simp_all
  have lsel: "length ?sel = length x_wide"
    and rsel: "\<And>i. i < length x_wide \<Longrightarrow> length (?sel ! i) = length (x_wide ! i)"
    using len rows by (simp_all add: np_not_equal_scalar_def np_floordiv_def)
  have sel: "?sel ! i ! j = (h ! i ! j div int ?n \<noteq> int s div int ?n)"
    if "i < length x_wide" "j < length (x_wide ! i)" for i j
    using that len rows by (simp add: np_not_equal_scalar_def np_floordiv_def)
  have inrange: "all_cells (\<lambda>cell. s < length cell) x_wide"
    by (rule all_cells_mono[OF cells]) (simp add: s)
  have shsel: "shape2 ?sel = shape2 x_wide"
    using sh by (simp add: shape2_def np_not_equal_scalar_def np_floordiv_def comp_def)
  have step: "loss_augment_step self h unary_params s x_wide = Inr r"
    using s inrange shsel
    by (simp add: loss_augment_step_def masked_index_ok_def add_at_masked_def r_def Let_def)
  have lr: "length r = length x_wide" using lsel by (simp add: r_def)
  have rr: "length (r ! i) = length (x_wide ! i)" if "i < length x_wide" for i
    using that lsel rsel by (simp add: r_def)
  have cell: "r ! i ! j = ?g (?sel ! i ! j) (x_wide ! i ! j)"
    if "i < length x_wide" "j < length (x_wide ! i)" for i j
    using that lsel rsel by (simp add: r_def)
  have shr: "shape2 r = shape2 x_wide"
    unfolding shape2_def by (rule nth_equalityI) (simp_all add: lr rr)
  have lc: "length (x_wide ! i ! j) = N" if "i < length x_wide" "j < length (x_wide ! i)" for i j
    using cells that by (simp add: all_cells_iff_nth)
  have cr: "all_cells (\<lambda>cell. length cell = N) r"
    unfolding all_cells_iff_nth
  proof (intro allI impI)
    fix i j assume i: "i < length r" and j: "j < length (r ! i)"
    then have i': "i < length x_wide" using lr by simp
    with j have j': "j < length (x_wide ! i)" using rr by simp
    show "length (r ! i ! j) = N"
      using lc[OF i' j'] by (simp only: cell[OF i' j']) simp
  qed
  have entries: "\<forall>i j t. i < length x_wide \<and> j < length (x_wide ! i) \<and> t < N \<longrightarrow>
              r ! i ! j ! t = x_wide ! i ! j ! t +
                (if t = s \<and> h ! i ! j div int ?n \<noteq> int s div int ?n then ?v else 0)"
  proof (intro allI impI)
    fix i j t assume a: "i < length x_wide \<and> j < length (x_wide ! i) \<and> t < N"
    then have i: "i < length x_wide" and j: "j < length (x_wide ! i)" and t: "t < N" by simp_all
    show "r ! i ! j ! t = x_wide ! i ! j ! t +
                (if t = s \<and> h ! i ! j div int ?n \<noteq> int s div int ?n then ?v else 0)"
      using lc[OF i j] t s(1)
      by (simp only: cell[OF i j] sel[OF i j]) (simp add: nth_list_update)
  qed
  from step shr cr entries show ?thesis by blast
qed

lemma loss_augment_loop_entries:
  assumes "all_cells (\<lambda>cell. length cell = N) x_wide"
    and "shape2 h = shape2 x_wide"
    and "\<forall>s\<in>set states. s < N \<and> s < length unary_params \<and> unary_params ! s \<noteq> 0"
    and "distinct states"
  shows "\<exists>r. loss_augment_loop self h unary_params states x_wide = Inr r \<and>
           shape2 r = shape2 x_wide \<and>
           (\<forall>i j t. i < length x_wide \<and> j < length (x_wide ! i) \<and> t < N \<longrightarrow>
              r ! i ! j ! t = x_wide ! i ! j ! t +
                (if t \<in> set states \<and> h ! i ! j div int (n_states_per_label self) \<noteq>
                              int t div int (n_states_per_label self)
                 then 1 / unary_params ! t else 0))"
  using assms
proof (induction states arbitrary: x_wide)
  case Nil
  then show ?case by simp
next
  case (Cons s states)
  from Cons.prems(3) have s: "s < N" "s < length unary_params" "unary_params ! s \<noteq> 0"
    by simp_all
  from loss_augment_step_entry[OF Cons.prems(1,2) s, of self] obtain r1 where
    step: "loss_augment_step self h unary_params s x_wide = Inr r1"
    and sh1: "shape2 r1 = shape2 x_wide"
    and c1: "all_cells (\<lambda>cell. length cell = N) r1"
    and e1: "\<And>i j t. i < length x_wide \<Longrightarrow> j < length (x_wide ! i) \<Longrightarrow> t < N \<Longrightarrow>
              r1 ! i ! j ! t = x_wide ! i ! j ! t +
                (if t = s \<and> h ! i ! j div int (n_states_per_label self) \<noteq>
                              int s div int (n_states_per_label self)
                 then 1 / unary_params ! s else 0)"
    by blast
  have len1: "length r1 = length x_wide"
    and rows1: "\<And>i. i < length r1 \<Longrightarrow> length (r1 ! i) = length (x_wide ! i)"
    using shape2_eq_lengths[OF sh1] by simp_all
  have sh: "shape2 h = shape2 r1" using Cons.prems(2) sh1 by simp
  have rest: "\<forall>s\<in>set states. s < N \<and> s < length unary_params \<and> unary_params ! s \<noteq> 0"
    using Cons.prems(3) by simp
  have dist: "distinct states" and notin: "s \<notin> set states"
    using Cons.prems(4) by simp_all
  from Cons.IH[OF c1 sh rest dist] obtain r where
    loop: "loss_augment_loop self h unary_params states r1 = Inr r"
    and shr: "shape2 r = shape2 r1"
    and e: "\<And>i j t. i < length r1 \<Longrightarrow> j < length (r1 ! i) \<Longrightarrow> t < N \<Longrightarrow>
              r ! i ! j ! t = r1 ! i ! j ! t +
                (if t \<in> set states \<and> h ! i ! j div int (n_states_per_label self) \<noteq>
                              int t div int (n_states_per_label self)
                 then 1 / unary_params ! t else 0)"
    by blast
  have "loss_augment_loop self h unary_params (s # states) x_wide = Inr r"
    using step loop by simp
  moreover have "shape2 r = shape2 x_wide" using shr sh1 by simp
  moreover have "\<forall>i j t. i < length x_wide \<and> j < length (x_wide ! i) \<and> t < N \<longrightarrow>
              r ! i ! j ! t = x_wide ! i ! j ! t +
                (if t \<in> set (s # states) \<and> h ! i ! j div int (n_states_per_label self) \<noteq>
                              int t div int (n_states_per_label self)
                 then 1 / unary_params ! t else 0)"
  proof (intro allI impI)
    fix i j t assume a: "i < length x_wide \<and> j < length (x_wide ! i) \<and> t < N"
    then have i: "i < length x_wide" and j: "j < length (x_wide ! i)" and t: "t < N" by simp_all
    have i1: "i < length r1" using i len1 by simp
    have j1: "j < length (r1 ! i)" using j rows1[OF i1] by simp
    show "r ! i ! j ! t = x_wide ! i ! j ! t +
                (if t \<in> set (s # states) \<and> h ! i ! j div int (n_states_per_label self) \<noteq>
                              int t div int (n_states_per_label self)
                 then 1 / unary_params ! t else 0)"
      using e[OF i1 j1 t] e1[OF i j t] notin by auto
  qed
  ultimately show ?case by blast
qed

text \<open>
  C4. On well-shaped inputs \<open>loss_augment x h w\<close> returns the unaries expanded to state
  width, in which, at every node and for every state \<open>s\<close>, the entry is the expanded score
  increased by \<open>1 / unary_weight s\<close> when \<open>s\<close> lies in another group of sub-states than
  the state of \<open>h\<close> at the node, a zero unary weight being read as \<open>1e-10\<close>, and is the
  expanded score itself when \<open>s\<close> lies in the same group.
\<close>

theorem loss_augment_entries:
  assumes "well_shaped self x h w"
    and "i < length h" and "j < length (h ! i)" and "s < n_states self"
  shows "\<exists>r. loss_augment self x h w = Inr r \<and> shape2 r = shape2 h \<and>
           r ! i ! j ! s =
             x ! i ! j ! (s div n_states_per_label self) +
             (if h ! i ! j div int (n_states_per_label self) \<noteq>
                 int s div int (n_states_per_label self)
              then 1 / (if w ! s = 0 then 1 / 10 ^ 10 else w ! s) else 0)"
proof -
  let ?n = "n_states_per_label self"
  let ?u = "loss_augment_unary_params self w"
  from assms(1) have ns: "n_states self = n_labels self * ?n"
    and sh: "shape2 h = shape2 x"
    and cells: "all_cells (\<lambda>cell. length cell = n_labels self) x"
    and lw: "n_states self \<le> length w"
    by (simp_all add: well_shaped_def)
  have ix: "i < length x" using assms(2) shape2_eq_lengths(1)[OF sh] by simp
  have jx: "j < length (x ! i)" using assms(2,3) shape2_eq_lengths(2)[OF sh] by simp
  have cell: "length (x ! i ! j) = n_labels self"
    using all_cells_nth[OF cells ix jx] .
  have wide: "all_cells (\<lambda>cell. length cell = n_states self) (np_repeat x ?n)"
    unfolding all_cells_np_repeat
    by (rule all_cells_mono[OF cells]) (simp add: length_repeat_cell ns)
  have shw: "shape2 h = shape2 (np_repeat x ?n)"
    by (simp add: shape2_np_repeat sh)
  have lu: "length ?u = n_states self"
    using lw by (simp add: loss_augment_unary_params_def replace_zeros_def)
  have nz: "0 \<notin> set ?u"
    by (simp add: loss_augment_unary_params_def replace_zeros_nonzero)
  have "?u ! t \<noteq> 0" if "t < n_states self" for t
  proof -
    from that lu have "?u ! t \<in> set ?u" by (simp only: nth_mem)
    with nz show ?thesis by auto
  qed
  then have states: "\<forall>s\<in>set [0..<n_states self].
                  s < n_states self \<and> s < length ?u \<and> ?u ! s \<noteq> 0"
    using lu by simp
  from loss_augment_loop_entries[OF wide shw states distinct_upt, of self] obtain r where
    loop: "loss_augment_loop self h ?u [0..<n_states self] (np_repeat x ?n) = Inr r"
    and shr: "shape2 r = shape2 (np_repeat x ?n)"
    and e: "\<And>i j t. i < length (np_repeat x ?n) \<Longrightarrow> j < length (np_repeat x ?n ! i) \<Longrightarrow>
              t < n_states self \<Longrightarrow>
              r ! i ! j ! t = np_repeat x ?n ! i ! j ! t +
                (if t \<in> set [0..<n_states self] \<and> h ! i ! j div int ?n \<noteq> int t div int ?n
                 then 1 / ?u ! t else 0)"
    by blast
  have ir: "i < length (np_repeat x ?n)" and jr: "j < length (np_repeat x ?n ! i)"
    using ix jx by (simp_all add: np_repeat_def)
  have rep: "np_repeat x ?n ! i ! j ! s = x ! i ! j ! (s div ?n)"
    using ix jx assms(4) by (simp add: nth_np_repeat cell ns mult.commute)
  have us: "?u ! s = (if w ! s = 0 then 1 / 10 ^ 10 else w ! s)"
    using assms(4) lw by (simp add: loss_augment_unary_params_def replace_zeros_def)
  have "loss_augment self x h w = Inr r"
    using loop by (simp add: loss_augment_def Let_def)
  moreover have "shape2 r = shape2 h" using shr shw by simp
  moreover have "r ! i ! j ! s = x ! i ! j ! (s div ?n) +
             (if h ! i ! j div int ?n \<noteq> int s div int ?n
              then 1 / (if w ! s = 0 then 1 / 10 ^ 10 else w ! s) else 0)"
    using e[OF ir jr assms(4)] assms(4) by (simp only: rep us) simp
  ultimately show ?thesis by blast
qed

text \<open>
  Witness of C4: one node in state 1 with scores 1 and 2 and unary weights \<open>[0, 2, 4, 0]\<close>.
  States 2 and 3 lie in the other group and grow by \<open>1 / 4\<close> and by \<open>1 / 1e-10\<close>.
\<close>

lemma loss_augment_example:
  "loss_augment (LatentGridCRF_init 2 2) [[[1, 2]]] [[1]] [0, 2, 4, 0] =
   Inr [[[1, 1, 9 / 4, 10000000002]]]"
  by code_simp

theorem loss_augment_entries_witness:
  "well_shaped (LatentGridCRF_init 2 2) [[[1, 2]]] [[1]] [0, 2, 4, 0] \<and>
   (0 :: nat) < length [[1 :: int]] \<and> (0 :: nat) < length ([[1 :: int]] ! 0) \<and>
   3 < n_states (LatentGridCRF_init 2 2) \<and>
   (\<exists>r. loss_augment (LatentGridCRF_init 2 2) [[[1, 2]]] [[1]] [0, 2, 4, 0] = Inr r \<and>
      r ! 0 ! 0 ! 3 = 10000000002)"
proof -
  have i: "(0 :: nat) < length [[1 :: int]]" and j: "(0 :: nat) < length ([[1 :: int]] ! 0)"
    by simp_all
  have s: "3 < n_states (LatentGridCRF_init 2 2)"
    by (simp add: model_example)
  have "\<exists>r. loss_augment (LatentGridCRF_init 2 2) [[[1, 2]]] [[1]] [0, 2, 4, 0] = Inr r \<and>
      r ! 0 ! 0 ! 3 = 10000000002"
    using loss_augment_entries [OF well_shaped_example(2) i j s]
    by (auto simp: model_example)
  with well_shaped_example(2) i j s show ?thesis by blast
qed

section \<open>The per-label sequence form\<close>

lemma np_floordiv_seq_test_grid:
  "np_floordiv_seq (replicate 8 (replicate 8 0)) [1, 2] = Inl ValueError"
  by (simp add: np_floordiv_seq_def list_all_iff)

text \<open>
  C5. The latent models are to accept \<open>n_states_per_label\<close> as an integer or as a
  per-label sequence, with \<open>n_states\<close> the total number of hidden states and every
  operation working under the sequence form. The code does so for the integer form only,
  where \<open>n_states = n_labels * n_states_per_label\<close>. For \<open>n_labels = 2\<close> and the list
  \<open>[1, 2]\<close> of the tests, \<open>n_states\<close> is the list \<open>[1, 2, 1, 2]\<close> and not a number of
  states; \<open>loss\<close> on the 8 by 8 grids of the tests, or on a grid of three columns, raises,
  since the list is broadcast along the columns; and on a grid of two columns it divides
  column 0 by 1 and column 1 by 2: the maps \<open>[[0, 1]]\<close> and \<open>[[0, 2]]\<close>, whose states
  0, 1 and 0, 2 belong to the labels 0, 1 both times, get the loss 1.
\<close>

theorem per_label_sequence_evaluation:
  "init_n_states nl (PyInt n) = PyInt (nl * n) \<and>
   init_n_states 2 (PyList [1, 2]) = PyList [1, 2, 1, 2] \<and>
   loss_seq [1, 2] (replicate 8 (replicate 8 0)) (replicate 8 (replicate 8 0)) = Inl ValueError \<and>
   loss_seq [1, 2] [[0, 1, 2]] [[0, 2, 1]] = Inl ValueError \<and>
   loss_seq [1, 2] [[0, 1]] [[0, 2]] = Inr 1"
proof (intro conjI)
  show "init_n_states nl (PyInt n) = PyInt (nl * n)"
    by (simp add: init_n_states_def)
  show "init_n_states 2 (PyList [1, 2]) = PyList [1, 2, 1, 2]"
    by (simp add: init_n_states_def numeral_2_eq_2)
  show "loss_seq [1, 2] (replicate 8 (replicate 8 0)) (replicate 8 (replicate 8 0)) = Inl ValueError"
    by (simp add: loss_seq_def np_floordiv_seq_test_grid)
  show "loss_seq [1, 2] [[0, 1, 2]] [[0, 2, 1]] = Inl ValueError"
    by (simp add: loss_seq_def np_floordiv_seq_def)
  show "loss_seq [1, 2] [[0, 1]] [[0, 2]] = Inr 1"
    by (simp add: loss_seq_def np_floordiv_seq_def np_sum_def np_not_equal_def)
qed

section \<open>inference and loss\_augmented\_inference leave their arguments alone\<close>

lemma memory_extends_refl: "memory_extends m m"
  by (simp add: memory_extends_def)

lemma memory_extends_trans:
  "memory_extends m1 m2 \<Longrightarrow> memory_extends m2 m3 \<Longrightarrow> memory_extends m1 m3"
  by (auto simp: memory_extends_def intro: prefix_order.trans)

lemma prefix_nth: "prefix xs ys \<Longrightarrow> i < length xs \<Longrightarrow> ys ! i = xs ! i"
  by (auto simp: prefix_def nth_append)

lemma prefix_list_update:
  "prefix us xs \<Longrightarrow> length us \<le> i \<Longrightarrow> prefix us (xs[i := v])"
  by (auto simp: prefix_def list_update_append)

lemma memory_extends_nth:
  assumes "memory_extends m m'"
  shows "x < length (unaries_at m) \<Longrightarrow> unaries_at m' ! x = unaries_at m ! x"
    and "w < length (weights_at m) \<Longrightarrow> weights_at m' ! w = weights_at m ! w"
  using assms by (simp_all add: memory_extends_def prefix_nth)

lemma loss_augment_loop_mem_frame:
  assumes "prefix us (unaries_at m)" and "length us \<le> x_wide"
  shows "prefix us (unaries_at (snd (loss_augment_loop_mem self h unary_params states x_wide m))) \<and>
         weights_at (snd (loss_augment_loop_mem self h unary_params states x_wide m)) = weights_at m"
  using assms
proof (induction states arbitrary: m)
  case Nil
  then show ?case by simp
next
  case (Cons s states)
  show ?case
  proof (cases "loss_augment_step self h (weights_at m ! unary_params) s (unaries_at m ! x_wide)")
    case (Inl e)
    with Cons.prems show ?thesis by simp
  next
    case (Inr v)
    let ?m = "m\<lparr>unaries_at := (unaries_at m)[x_wide := v]\<rparr>"
    have "prefix us (unaries_at ?m)"
      using Cons.prems by (simp add: prefix_list_update)
    from Cons.IH[OF this Cons.prems(2)] Inr show ?thesis by simp
  qed
qed

lemma loss_augment_mem_frame: "memory_extends m (snd (loss_augment_mem self x h w m))"
proof -
  let ?xw = "length (unaries_at m)"
  let ?up = "length (weights_at m)"
  let ?m1 = "m\<lparr>unaries_at := unaries_at m @ [np_repeat (unaries_at m ! x) (n_states_per_label self)]\<rparr>"
  let ?m2 = "?m1\<lparr>weights_at := weights_at ?m1 @ [take (n_states self) (weights_at ?m1 ! w)]\<rparr>"
  let ?m3 = "?m2\<lparr>weights_at := (weights_at ?m2)[?up := replace_zeros (weights_at ?m2 ! ?up)]\<rparr>"
  have eq: "loss_augment_mem self x h w m =
            loss_augment_loop_mem self h ?up [0..<n_states self] ?xw ?m3"
    by (simp add: loss_augment_mem_def new_unaries_def new_weights_def Let_def)
  have pu: "prefix (unaries_at m) (unaries_at ?m3)" by simp
  have pw: "prefix (weights_at m) (weights_at ?m3)"
    by (simp add: prefix_list_update)
  from loss_augment_loop_mem_frame[OF pu order_refl, of self h ?up "[0..<n_states self]"] pw
  show ?thesis
    by (simp add: eq memory_extends_def)
qed

text \<open>
  The procedure on the memory computes what the function \<open>loss_augment\<close> of the values
  computes: the same exception, or the address of an array that holds the same unaries.
\<close>

lemma loss_augment_loop_mem_value:
  assumes "x_wide < length (unaries_at m)"
  shows "case loss_augment_loop self h (weights_at m ! unary_params) states (unaries_at m ! x_wide) of
           Inl e \<Rightarrow> fst (loss_augment_loop_mem self h unary_params states x_wide m) = Inl e
         | Inr r \<Rightarrow>
             fst (loss_augment_loop_mem self h unary_params states x_wide m) = Inr x_wide \<and>
             unaries_at (snd (loss_augment_loop_mem self h unary_params states x_wide m)) ! x_wide = r"
  using assms
proof (induction states arbitrary: m)
  case Nil
  then show ?case by simp
next
  case (Cons s states)
  show ?case
  proof (cases "loss_augment_step self h (weights_at m ! unary_params) s (unaries_at m ! x_wide)")
    case (Inl e)
    then show ?thesis by simp
  next
    case (Inr v)
    let ?m = "m\<lparr>unaries_at := (unaries_at m)[x_wide := v]\<rparr>"
    have b: "x_wide < length (unaries_at ?m)" using Cons.prems by simp
    have v: "unaries_at ?m ! x_wide = v" "weights_at ?m = weights_at m"
      using Cons.prems by simp_all
    from Cons.IH[OF b] show ?thesis
      by (simp only: loss_augment_loop.simps loss_augment_loop_mem.simps Inr sum.case v)
  qed
qed

lemma loss_augment_mem_value:
  "case loss_augment self (unaries_at m ! x) h (weights_at m ! w) of
     Inl e \<Rightarrow> fst (loss_augment_mem self x h w m) = Inl e
   | Inr r \<Rightarrow> (\<exists>x_wide. fst (loss_augment_mem self x h w m) = Inr x_wide \<and>
                 unaries_at (snd (loss_augment_mem self x h w m)) ! x_wide = r)"
proof -
  let ?xw = "length (unaries_at m)"
  let ?up = "length (weights_at m)"
  let ?m1 = "m\<lparr>unaries_at := unaries_at m @ [np_repeat (unaries_at m ! x) (n_states_per_label self)]\<rparr>"
  let ?m2 = "?m1\<lparr>weights_at := weights_at ?m1 @ [take (n_states self) (weights_at ?m1 ! w)]\<rparr>"
  let ?m3 = "?m2\<lparr>weights_at := (weights_at ?m2)[?up := replace_zeros (weights_at ?m2 ! ?up)]\<rparr>"
  have eq: "loss_augment_mem self x h w m =
            loss_augment_loop_mem self h ?up [0..<n_states self] ?xw ?m3"
    by (simp add: loss_augment_mem_def new_unaries_def new_weights_def Let_def)
  have b: "?xw < length (unaries_at ?m3)" by simp
  have xw: "unaries_at ?m3 ! ?xw = np_repeat (unaries_at m ! x) (n_states_per_label self)"
    by simp
  have up: "weights_at ?m3 ! ?up = loss_augment_unary_params self (weights_at m ! w)"
    by (simp add: loss_augment_unary_params_def)
  have pure: "loss_augment self (unaries_at m ! x) h (weights_at m ! w) =
        loss_augment_loop self h (weights_at ?m3 ! ?up) [0..<n_states self] (unaries_at ?m3 ! ?xw)"
    by (simp only: xw up) (simp add: loss_augment_def Let_def)
  from loss_augment_loop_mem_value[OF b, of self h ?up "[0..<n_states self]"]
  show ?thesis
    unfolding eq pure by (auto split: sum.splits)
qed

text \<open>
  C8. \<open>inference x w\<close> and \<open>loss_augmented_inference x h w\<close> do not change their
  arguments: when the inference of the base class changes no existing array, the arrays
  \<open>x\<close> and \<open>w\<close> hold after either call, also one that raises, what they held before it.
  All writes of the latent classes go to the new arrays \<open>x_wide\<close> and \<open>unary_params\<close>.
\<close>

theorem inference_leaves_arguments:
  assumes "leaves_arrays_alone base_inference"
    and "x < length (unaries_at m)" and "w < length (weights_at m)"
  shows "unaries_at (snd (inference_mem base_inference self x w m)) ! x = unaries_at m ! x \<and>
         weights_at (snd (inference_mem base_inference self x w m)) ! w = weights_at m ! w \<and>
         unaries_at (snd (loss_augmented_inference_mem base_inference self x h w m)) ! x =
           unaries_at m ! x \<and>
         weights_at (snd (loss_augmented_inference_mem base_inference self x h w m)) ! w =
           weights_at m ! w"
proof -
  have base: "memory_extends m' (snd (base_inference a b m'))" for a b m'
    using assms(1) by (simp add: leaves_arrays_alone_def)
  have inf: "memory_extends m (snd (inference_mem base_inference self x w m))"
  proof (cases "new_unaries (np_repeat (unaries_at m ! x) (n_states_per_label self)) m")
    case (Pair x_wide m1)
    then have "memory_extends m m1"
      by (auto simp: new_unaries_def memory_extends_def)
    then have "memory_extends m (snd (base_inference x_wide w m1))"
      by (rule memory_extends_trans[OF _ base])
    with Pair show ?thesis by (simp add: inference_mem_def)
  qed
  have la: "memory_extends m (snd (loss_augment_mem self x h w m))"
    by (rule loss_augment_mem_frame)
  have lai: "memory_extends m (snd (loss_augmented_inference_mem base_inference self x h w m))"
  proof (cases "loss_augment_mem self x h w m")
    case (Pair r m1)
    with la have m1: "memory_extends m m1" by simp
    show ?thesis
    proof (cases r)
      case (Inl e)
      with Pair m1 show ?thesis by (simp add: loss_augmented_inference_mem_def)
    next
      case (Inr x_wide)
      have "memory_extends m (snd (base_inference x_wide w m1))"
        by (rule memory_extends_trans[OF m1 base])
      with Pair Inr show ?thesis
        by (auto simp: loss_augmented_inference_mem_def split: prod.splits)
    qed
  qed
  from memory_extends_nth[OF inf] memory_extends_nth[OF lai] assms(2,3) show ?thesis by simp
qed

text \<open>
  Witness of C8: both calls on the memory of one node, with the node-wise maximiser.
\<close>

lemma leaves_arrays_alone_nodewise_argmax_mem: "leaves_arrays_alone nodewise_argmax_mem"
  by (simp add: leaves_arrays_alone_def nodewise_argmax_mem_def memory_extends_refl)

lemma loss_augmented_inference_mem_example:
  "fst (loss_augmented_inference_mem nodewise_argmax_mem (LatentGridCRF_init 2 2) 0 [[1]] 0
          memory_example) = Inr [[2]]"
  by code_simp

lemma inference_mem_example:
  "fst (inference_mem nodewise_argmax_mem (LatentGridCRF_init 2 2) 0 0 memory_example) = [[2]]"
  by code_simp

theorem inference_leaves_arguments_witness:
  "leaves_arrays_alone nodewise_argmax_mem \<and>
   (0 :: nat) < length (unaries_at memory_example) \<and>
   (0 :: nat) < length (weights_at memory_example) \<and>
   unaries_at (snd (inference_mem nodewise_argmax_mem (LatentGridCRF_init 2 2) 0 0
                      memory_example)) ! 0 = [[[1, 2]]] \<and>
   weights_at (snd (inference_mem nodewise_argmax_mem (LatentGridCRF_init 2 2) 0 0
                      memory_example)) ! 0 = [0, 2, 4, 0] \<and>
   unaries_at (snd (loss_augmented_inference_mem nodewise_argmax_mem (LatentGridCRF_init 2 2)
                      0 [[1]] 0 memory_example)) ! 0 = [[[1, 2]]] \<and>
   weights_at (snd (loss_augmented_inference_mem nodewise_argmax_mem (LatentGridCRF_init 2 2)
                      0 [[1]] 0 memory_example)) ! 0 = [0, 2, 4, 0]"
proof -
  have x: "(0 :: nat) < length (unaries_at memory_example)"
    and w: "(0 :: nat) < length (weights_at memory_example)"
    by (simp_all add: memory_example_def)
  have v: "unaries_at memory_example ! 0 = [[[1, 2]]]" "weights_at memory_example ! 0 = [0, 2, 4, 0]"
    by (simp_all add: memory_example_def)
  from inference_leaves_arguments
    [OF leaves_arrays_alone_nodewise_argmax_mem x w, of "LatentGridCRF_init 2 2" "[[1]]"]
    leaves_arrays_alone_nodewise_argmax_mem x w
  show ?thesis by (simp only: v simp_thms)
qed

end
